theory Spec2Isabelle
  imports Main "HOL-Library.Word"
begin

unbundle bit_operations_syntax

section \<open>Transposition table (transposition.c)\<close>

subsection \<open>Constants and the packed entry\<close>

type_synonym TTValue = "64 word"

text \<open>search.c, lines 33 and 34.\<close>

definition CHECKMATE :: int where
  "CHECKMATE = 32767"

definition MATE_BOUND :: int where
  "MATE_BOUND = 30000"

definition INT16_MAX :: int where
  "INT16_MAX = 32767"

definition INT16_MIN :: int where
  "INT16_MIN = - 32768"

definition INT32_MAX :: int where
  "INT32_MAX = 2147483647"

definition NO_ENTRY :: TTValue where
  "NO_ENTRY = 0"

text \<open>
  The header comment of transposition.c fixes the bucket size: conflicting hashes have
  buckets of size 2. Even indices of the table hold keys, odd indices hold entries.
\<close>

definition BUCKET_SIZE :: nat where
  "BUCKET_SIZE = 2"

text \<open>The bound kinds \<open>TT_LOWER\<close>, \<open>TT_UPPER\<close>, \<open>TT_EXACT\<close> of transposition.h.\<close>

datatype bound = TT_LOWER | TT_UPPER | TT_EXACT

text \<open>
  The packing macros \<open>TTEntry\<close>, \<open>TTDepth\<close>, \<open>TTFlag\<close>, \<open>TTMove\<close> and \<open>TTEval\<close> live in
  transposition.h, which is not among the sources. They are parameters of the model: every
  function below that uses one takes the record \<open>M\<close>. The depth accessor yields a C
  \<open>int\<close>, kept as a 32-bit word and read with \<open>sint\<close>.
\<close>

record tt_macros =
  TTEntry :: "int \<Rightarrow> bound \<Rightarrow> int \<Rightarrow> int \<Rightarrow> int \<Rightarrow> TTValue"
  TTDepth :: "TTValue \<Rightarrow> 32 word"
  TTFlag :: "TTValue \<Rightarrow> bound"
  TTMove :: "TTValue \<Rightarrow> int"
  TTEval :: "TTValue \<Rightarrow> int"

text \<open>The globals \<open>TRANSPOSITION_ENTRIES\<close>, \<open>SIZE\<close> (in bytes) and \<open>POWER\<close>.\<close>

record tt_state =
  TRANSPOSITION_ENTRIES :: "nat \<Rightarrow> TTValue"
  SIZE :: nat
  POWER :: nat

datatype tt_error = AssertionFailed | UndefinedBehaviour

subsection \<open>TTInit and TTClear\<close>

text \<open>
  \<open>(int)log2(x)\<close> on a positive integer is the position of its highest set bit.
\<close>

fun ilog2 :: "nat \<Rightarrow> nat" where
  "ilog2 n = (if n < 2 then 0 else Suc (ilog2 (n div 2)))"

declare ilog2.simps [simp del]

text \<open>\<open>sizeof(TTValue)\<close> is 8.\<close>

definition sizeof_TTValue :: nat where
  "sizeof_TTValue = 8"

text \<open>\<open>memset(TRANSPOSITION_ENTRIES, NO_ENTRY, SIZE)\<close>: the \<open>SIZE / 8\<close> words of the table become 0.\<close>

definition TTClear :: "tt_state \<Rightarrow> tt_state" where
  "TTClear s =
     s\<lparr>TRANSPOSITION_ENTRIES :=
         (\<lambda>i. if i < SIZE s div sizeof_TTValue then NO_ENTRY else TRANSPOSITION_ENTRIES s i)\<rparr>"

text \<open>
  \<open>TTInit\<close>: \<open>log2\<close> of a non-positive number and \<open>1 << POWER\<close> with \<open>POWER > 30\<close> have no
  defined result in C. The freshly allocated memory has arbitrary contents, which is what
  the old contents of the model's array stand for; \<open>TTClear\<close> overwrites all of it.
\<close>

definition TTInit :: "int \<Rightarrow> tt_state \<Rightarrow> tt_error + tt_state" where
  "TTInit mb s =
     (if mb < 1 then Inl UndefinedBehaviour
      else
        let p = int (ilog2 (0x100000 div sizeof_TTValue)) + int (ilog2 (nat mb))
                  - int (ilog2 BUCKET_SIZE) - 1
        in if p < 0 \<or> 30 < p then Inl UndefinedBehaviour
           else Inr (TTClear (s\<lparr>SIZE := 2 ^ nat p * sizeof_TTValue * BUCKET_SIZE * 2,
                                POWER := nat p\<rparr>)))"

subsection \<open>TTIdx, TTScore, TTProbe\<close>

text \<open>
  Modelled from the spec: the macro \<open>TTIdx\<close> of transposition.h is not among the sources.
  The table is an array of \<open>2^P\<close> buckets of \<open>B\<close> slots, a slot being a key word and an
  entry word; the bucket index is the low \<open>P\<close> bits of the hash. \<open>TTIdx\<close> is the array
  index of the first key of that bucket.
\<close>

definition TTIdx :: "tt_state \<Rightarrow> 64 word \<Rightarrow> nat" where
  "TTIdx s hash = (unat hash mod 2 ^ POWER s) * (BUCKET_SIZE * 2)"

text \<open>Line 58: the 16 bits 32..47 of the entry, read as \<open>int16_t\<close>.\<close>

definition TTScoreBits :: "TTValue \<Rightarrow> int" where
  "TTScoreBits v = sint (ucast (drop_bit 32 (v AND 0x0000FFFF00000000)) :: 16 word)"

definition TTScore :: "TTValue \<Rightarrow> int \<Rightarrow> int" where
  "TTScore v ply =
     (let score = TTScoreBits v
      in if score > MATE_BOUND then score - ply
         else if score < - MATE_BOUND then score + ply
         else score)"

function TTProbe_scan :: "(nat \<Rightarrow> TTValue) \<Rightarrow> 64 word \<Rightarrow> nat \<Rightarrow> nat \<Rightarrow> TTValue" where
  "TTProbe_scan E hash idx i =
     (if i < idx + BUCKET_SIZE * 2 then
        (if E i = hash then E (i + 1) else TTProbe_scan E hash idx (i + 2))
      else NO_ENTRY)"
  by pat_completeness auto
termination
  by (relation "measure (\<lambda>(E, hash, idx, i). idx + BUCKET_SIZE * 2 - i)") auto

declare TTProbe_scan.simps [simp del]

definition TTProbe :: "tt_state \<Rightarrow> 64 word \<Rightarrow> TTValue" where
  "TTProbe s hash = TTProbe_scan (TRANSPOSITION_ENTRIES s) hash (TTIdx s hash) (TTIdx s hash)"

subsection \<open>TTPut\<close>

text \<open>
  The scan of lines 84..108 either leaves the function with the stored entry (line 98) or
  ends with \<open>replacementIdx\<close>.
\<close>

datatype scan_result = Abort TTValue | Replace nat

function TTPut_scan ::
  "tt_macros \<Rightarrow> (nat \<Rightarrow> TTValue) \<Rightarrow> 64 word \<Rightarrow> int \<Rightarrow> bound \<Rightarrow> nat \<Rightarrow> nat \<Rightarrow> int \<Rightarrow> nat
     \<Rightarrow> scan_result" where
  "TTPut_scan M E hash depth flag idx i replacementDepth replacementIdx =
     (if i < idx + BUCKET_SIZE * 2 then
        (let currHash = E i in
         if currHash = 0 then Replace i
         else
           (let currDepth = sint (TTDepth M (E (i + 1))) in
            if E i = hash then
              (if currDepth > depth \<and> flag \<noteq> TT_EXACT then Abort (E (i + 1))
               else Replace i)
            else if currDepth < replacementDepth then
              TTPut_scan M E hash depth flag idx (i + 2) currDepth i
            else
              TTPut_scan M E hash depth flag idx (i + 2) replacementDepth replacementIdx))
      else Replace replacementIdx)"
  by pat_completeness auto
termination
  by (relation "measure (\<lambda>(M, E, hash, depth, flag, idx, i, rd, ri). idx + BUCKET_SIZE * 2 - i)")
     auto

declare TTPut_scan.simps [simp del]

text \<open>Lines 110..114.\<close>

definition adjustScore :: "int \<Rightarrow> int \<Rightarrow> int" where
  "adjustScore score ply =
     (if score > MATE_BOUND then score + ply
      else if score < - MATE_BOUND then score - ply
      else score)"

text \<open>
  \<open>TTPut\<close> returns the entry and the new table, or stops at a failed \<open>assert\<close> (the Makefile
  does not define \<open>NDEBUG\<close>).
\<close>

definition TTPut ::
  "tt_macros \<Rightarrow> tt_state \<Rightarrow> 64 word \<Rightarrow> int \<Rightarrow> int \<Rightarrow> bound \<Rightarrow> int \<Rightarrow> int \<Rightarrow> int
     \<Rightarrow> tt_error + (TTValue \<times> tt_state)" where
  "TTPut M s hash depth score flag move ply eval =
     (let idx = TTIdx s hash in
      case TTPut_scan M (TRANSPOSITION_ENTRIES s) hash depth flag idx idx INT32_MAX idx of
        Abort v \<Rightarrow> Inr (v, s)
      | Replace replacementIdx \<Rightarrow>
          (let adjustedScore = adjustScore score ply in
           if \<not> (adjustedScore \<le> INT16_MAX \<and> adjustedScore \<ge> INT16_MIN
                 \<and> eval \<le> INT16_MAX \<and> eval \<ge> INT16_MIN)
           then Inl AssertionFailed
           else
             (let tt = TTEntry M adjustedScore flag depth move eval;
                  s' = s\<lparr>TRANSPOSITION_ENTRIES :=
                          (TRANSPOSITION_ENTRIES s)(replacementIdx := hash,
                                                    replacementIdx + 1 := tt)\<rparr>
              in if depth = sint (TTDepth M tt) \<and> score = TTScore tt ply \<and> flag = TTFlag M tt
                    \<and> move = TTMove M tt \<and> eval = TTEval M tt
                 then Inr (tt, s')
                 else Inl AssertionFailed)))"

text \<open>The assertions of lines 116..119 and 124..128, on the entry that \<open>TTPut\<close> packs.\<close>

definition TTPut_asserts ::
  "tt_macros \<Rightarrow> int \<Rightarrow> int \<Rightarrow> bound \<Rightarrow> int \<Rightarrow> int \<Rightarrow> int \<Rightarrow> bool" where
  "TTPut_asserts M depth score flag move ply eval =
     (let adjustedScore = adjustScore score ply;
          tt = TTEntry M adjustedScore flag depth move eval
      in adjustedScore \<le> INT16_MAX \<and> adjustedScore \<ge> INT16_MIN
         \<and> eval \<le> INT16_MAX \<and> eval \<ge> INT16_MIN
         \<and> depth = sint (TTDepth M tt) \<and> score = TTScore tt ply \<and> flag = TTFlag M tt
         \<and> move = TTMove M tt \<and> eval = TTEval M tt)"

subsection \<open>Buckets and slots\<close>

text \<open>Slot \<open>k\<close> of the bucket at array index \<open>idx\<close>: its key, its entry, its stored depth.\<close>

definition slot_key :: "(nat \<Rightarrow> TTValue) \<Rightarrow> nat \<Rightarrow> nat \<Rightarrow> TTValue" where
  "slot_key E idx k = E (idx + 2 * k)"

definition slot_val :: "(nat \<Rightarrow> TTValue) \<Rightarrow> nat \<Rightarrow> nat \<Rightarrow> TTValue" where
  "slot_val E idx k = E (idx + 2 * k + 1)"

definition slot_depth :: "tt_macros \<Rightarrow> (nat \<Rightarrow> TTValue) \<Rightarrow> nat \<Rightarrow> nat \<Rightarrow> int" where
  "slot_depth M E idx k = sint (TTDepth M (slot_val E idx k))"

definition bucket_prefix :: "(nat \<Rightarrow> TTValue) \<Rightarrow> nat \<Rightarrow> bool" where
  "bucket_prefix E idx =
     (\<forall>k<BUCKET_SIZE. \<forall>j<k. slot_key E idx k \<noteq> 0 \<longrightarrow> slot_key E idx j \<noteq> 0)"

definition tt_prefix :: "tt_state \<Rightarrow> bool" where
  "tt_prefix s =
     (\<forall>b<2 ^ POWER s. bucket_prefix (TRANSPOSITION_ENTRIES s) (b * (BUCKET_SIZE * 2)))"

definition tt_sized :: "tt_state \<Rightarrow> bool" where
  "tt_sized s = (SIZE s = 2 ^ POWER s * sizeof_TTValue * BUCKET_SIZE * 2)"

subsection \<open>Sequences of table operations\<close>

datatype tt_op = Init int | Clear | Put "64 word" int int bound int int int

fun tt_step :: "tt_macros \<Rightarrow> tt_state \<Rightarrow> tt_op \<Rightarrow> tt_error + tt_state" where
  "tt_step M s (Init mb) = TTInit mb s"
| "tt_step M s Clear = Inr (TTClear s)"
| "tt_step M s (Put hash depth score flag move ply eval) =
     (case TTPut M s hash depth score flag move ply eval of
        Inl e \<Rightarrow> Inl e
      | Inr (tt, s') \<Rightarrow> Inr s')"

fun tt_run :: "tt_macros \<Rightarrow> tt_state \<Rightarrow> tt_op list \<Rightarrow> tt_error + tt_state" where
  "tt_run M s [] = Inr s"
| "tt_run M s (op # ops) =
     (case tt_step M s op of Inl e \<Rightarrow> Inl e | Inr s' \<Rightarrow> tt_run M s' ops)"

fun nonzero_hash :: "tt_op \<Rightarrow> bool" where
  "nonzero_hash (Put hash depth score flag move ply eval) = (hash \<noteq> 0)"
| "nonzero_hash _ = True"

subsection \<open>A concrete packing and concrete tables\<close>

text \<open>
  One packing that meets the round-trip contract of the accessors (score in bits 32..47, where
  \<open>TTScore\<close> reads it); it serves to run the model on concrete inputs.
\<close>

definition flag_code :: "bound \<Rightarrow> TTValue" where
  "flag_code f = (case f of TT_LOWER \<Rightarrow> 1 | TT_UPPER \<Rightarrow> 2 | TT_EXACT \<Rightarrow> 3)"

definition sample_macros :: tt_macros where
  "sample_macros =
     \<lparr>TTEntry = (\<lambda>score flag depth move eval.
          push_bit 48 (word_of_int eval AND 0xFFFF) OR push_bit 32 (word_of_int score AND 0xFFFF)
          OR push_bit 30 (flag_code flag) OR push_bit 24 (word_of_int depth AND 0x3F)
          OR (word_of_int move AND 0xFFFFFF)),
      TTDepth = (\<lambda>v. ucast (drop_bit 24 v AND 0x3F)),
      TTFlag = (\<lambda>v. let c = drop_bit 30 v AND 3
                     in if c = 1 then TT_LOWER else if c = 2 then TT_UPPER else TT_EXACT),
      TTMove = (\<lambda>v. uint (v AND 0xFFFFFF)),
      TTEval = (\<lambda>v. sint (ucast (drop_bit 48 v) :: 16 word))\<rparr>"

definition empty_table :: tt_state where
  "empty_table = \<lparr>TRANSPOSITION_ENTRIES = (\<lambda>_. 0), SIZE = 2 ^ 20, POWER = 15\<rparr>"

text \<open>The globals before the first \<open>TTInit\<close>.\<close>

definition tt_boot :: tt_state where
  "tt_boot = \<lparr>TRANSPOSITION_ENTRIES = (\<lambda>_. 0), SIZE = 0, POWER = 0\<rparr>"

definition one_entry :: tt_state where
  "one_entry =
     \<lparr>TRANSPOSITION_ENTRIES = (\<lambda>_. 0)(0 := 32768, 1 := TTEntry sample_macros 10 TT_EXACT 5 1 0),
      SIZE = 2 ^ 20, POWER = 15\<rparr>"

definition two_entries :: tt_state where
  "two_entries =
     \<lparr>TRANSPOSITION_ENTRIES = (\<lambda>_. 0)(0 := 32768, 1 := TTEntry sample_macros 10 TT_EXACT 5 1 0,
        2 := 65536, 3 := TTEntry sample_macros 20 TT_LOWER 2 1 0),
      SIZE = 2 ^ 20, POWER = 15\<rparr>"

definition full_bucket_ops :: "tt_op list" where
  "full_bucket_ops = [Init 1, Put 32768 1 10 TT_EXACT 1 0 0, Put 65536 2 20 TT_EXACT 1 0 0]"

definition hash0_run :: "tt_error + tt_state" where
  "hash0_run = tt_run sample_macros tt_boot (full_bucket_ops @ [Put 0 3 30 TT_EXACT 1 0 0])"

definition clean_ops :: "tt_op list" where
  "clean_ops = [Put 32768 1 10 TT_EXACT 1 0 0, Clear, Put 5 1 10 TT_EXACT 1 0 0,
                Put 32773 2 20 TT_LOWER 1 0 0]"


section \<open>Search (search.c)\<close>

subsection \<open>Data (types.h)\<close>


type_synonym Move = int
type_synonym BitBoard = "64 word"
type_synonym PV = "Move list"

record MoveList =
  ml_count :: nat
  ml_moves :: "nat \<Rightarrow> Move"
  ml_scores :: "nat \<Rightarrow> int"

record Board =
  pieces :: "int \<Rightarrow> BitBoard"
  occupancies :: "int \<Rightarrow> BitBoard"
  squares :: "int \<Rightarrow> int"
  checkers :: BitBoard
  pinners :: BitBoard
  piecesCounts :: "64 word"
  side :: int
  xside :: int
  epSquare :: int
  castling :: int
  moveNo :: int
  halfMove :: int
  zobrist :: "64 word"
  zobristHistory :: "int \<Rightarrow> 64 word"
  castlingHistory :: "int \<Rightarrow> int"
  epSquareHistory :: "int \<Rightarrow> int"
  captureHistory :: "int \<Rightarrow> int"
  halfMoveHistory :: "int \<Rightarrow> int"

record SearchData =
  sd_score :: int
  sd_bestMove :: Move
  sd_board :: Board
  sd_ply :: int
  sd_nodes :: int
  sd_seldepth :: int
  sd_skipMove :: "int \<Rightarrow> Move"
  sd_evals :: "int \<Rightarrow> int"
  sd_moves :: "int \<Rightarrow> Move"
  sd_killers :: "int \<Rightarrow> int \<Rightarrow> Move"
  sd_counters :: "int \<Rightarrow> Move"
  sd_hh :: "int \<Rightarrow> int \<Rightarrow> int"
  sd_bf :: "int \<Rightarrow> int \<Rightarrow> int"

record SearchParams =
  sp_startTime :: int
  sp_endTime :: int
  sp_depth :: int
  sp_timeset :: int
  sp_movesToGo :: int
  sp_stopped :: int
  sp_quit :: int

text \<open>What \<open>Search\<close> prints: an info line (principal variation, score, depth) or the best move.\<close>

datatype printed = InfoLine PV int int | BestMoveLine Move

text \<open>
  Everything a search call can change: the parameters (the stop flag), the search data with
  the board it points to, the transposition table, and the printed lines.
\<close>

record search_state =
  st_params :: SearchParams
  st_data :: SearchData
  st_tt :: tt_state
  st_out :: "printed list"

text \<open>
  A call runs out of fuel, stops at a failed \<open>assert\<close>, or returns.
\<close>

datatype 'a outcome = Timeout | Crash | Ret 'a

definition obind :: "'a outcome \<Rightarrow> ('a \<Rightarrow> 'b outcome) \<Rightarrow> 'b outcome" where
  "obind m f = (case m of Timeout \<Rightarrow> Timeout | Crash \<Rightarrow> Crash | Ret x \<Rightarrow> f x)"

text \<open>
  How a piece of a function body ends: with a \<open>return\<close> of the function, or by going on to
  the next statement. An iteration of a loop can also end with a \<open>break\<close>: it leaves the
  function, breaks out of the loop, or goes on to the next iteration.
\<close>

datatype ('r, 'c) step = Return 'r | Go 'c

datatype ('r, 'c) flow = Leave 'r | Break 'c | Next 'c

text \<open>
  search.c calls into board.c, eval.c, move.h, movegen.c, see.c, util.c and transposition.h,
  none of which is among the sources with the signatures used here. The functions, macros,
  tables and constants it takes from them are parameters of the model, gathered in one
  record: \<open>MAX_DEPTH\<close> and \<open>COUNTER\<close>, the table \<open>LMR\<close> (filled by \<open>initLMR\<close> with floating-point
  logarithms), the board functions, the move generators, the move accessors, the piece
  tables, and the input that \<open>communicate\<close> polls, as a function of the node counter.
\<close>

record env =
  macros :: tt_macros
  MAX_DEPTH :: int
  COUNTER :: int
  LMR :: "int \<Rightarrow> int \<Rightarrow> int"
  isRepetition :: "Board \<Rightarrow> bool"
  isMaterialDraw :: "Board \<Rightarrow> bool"
  hasNonPawn :: "Board \<Rightarrow> bool"
  Evaluate :: "Board \<Rightarrow> int"
  see :: "Board \<Rightarrow> Move \<Rightarrow> int"
  makeMove :: "Move \<Rightarrow> Board \<Rightarrow> Board"
  undoMove :: "Move \<Rightarrow> Board \<Rightarrow> Board"
  nullMove :: "Board \<Rightarrow> Board"
  undoNullMove :: "Board \<Rightarrow> Board"
  generateMoves :: "SearchData \<Rightarrow> MoveList"
  generateQuiesceMoves :: "SearchData \<Rightarrow> MoveList"
  movePromo :: "Move \<Rightarrow> int"
  moveCapture :: "Move \<Rightarrow> int"
  moveEP :: "Move \<Rightarrow> int"
  moveStart :: "Move \<Rightarrow> int"
  moveEnd :: "Move \<Rightarrow> int"
  PAWN :: "int \<Rightarrow> int"
  QUEEN :: "int \<Rightarrow> int"
  PIECE_TYPE :: "int \<Rightarrow> int"
  STATIC_MATERIAL_VALUE :: "int \<Rightarrow> int"
  NO_PIECE :: int
  stop_input :: "int \<Rightarrow> bool"
  quit_input :: "int \<Rightarrow> bool"

subsection \<open>Constants and tables\<close>

text \<open>search.c, lines 36..39.\<close>

definition FUTILITY_MARGIN :: int where
  "FUTILITY_MARGIN = 85"

definition SEE_PRUNE_CAPTURE_CUTOFF :: int where
  "SEE_PRUNE_CAPTURE_CUTOFF = - 70"

definition SEE_PRUNE_CUTOFF :: int where
  "SEE_PRUNE_CUTOFF = - 20"

definition DELTA_CUTOFF :: int where
  "DELTA_CUTOFF = 200"

text \<open>
  \<open>NULL_MOVE\<close> is 0: \<open>initSearchData\<close> clears \<open>skipMove\<close> with \<open>memset\<close> and \<open>negamax\<close> tests
  \<open>!skipMove\<close>. \<open>WHITE\<close> is the first enumerator of types.h.
\<close>

definition NULL_MOVE :: Move where
  "NULL_MOVE = 0"

definition WHITE :: int where
  "WHITE = 0"




definition QUEEN_BLACK :: int where
  "QUEEN_BLACK = 9"

text \<open>C division truncates towards zero.\<close>

definition cdiv :: "int \<Rightarrow> int \<Rightarrow> int" where
  "cdiv a b = sgn a * sgn b * (\<bar>a\<bar> div \<bar>b\<bar>)"

text \<open>The tables of \<open>initLMR\<close>, lines 51..59, as functions of the depth.\<close>

definition LMP :: "bool \<Rightarrow> int \<Rightarrow> int" where
  "LMP improving depth = (if improving then 3 + depth * depth else cdiv (3 + depth * depth) 2)"

definition SEE :: "bool \<Rightarrow> int \<Rightarrow> int" where
  "SEE tactical depth =
     (if tactical then SEE_PRUNE_CAPTURE_CUTOFF * depth else SEE_PRUNE_CUTOFF * depth * depth)"

definition FUTILITY :: "int \<Rightarrow> int" where
  "FUTILITY depth = FUTILITY_MARGIN * depth"

subsection \<open>Collaborators modelled from the spec\<close>

text \<open>
  Modelled from the spec: \<open>communicate\<close> (util.c) is not among the sources. It reads external
  input without blocking and may set \<open>params.stopped\<close> or \<open>params.quit\<close>; it never clears
  them. The input it sees is \<open>stop_input\<close> and \<open>quit_input\<close> at the current node count.
\<close>

definition communicate :: "env \<Rightarrow> int \<Rightarrow> SearchParams \<Rightarrow> SearchParams" where
  "communicate E nodes p =
     p\<lparr>sp_stopped := (if stop_input E nodes then 1 else sp_stopped p),
       sp_quit := (if quit_input E nodes then 1 else sp_quit p)\<rparr>"

text \<open>
  Modelled from the spec: \<open>bubbleTopMove\<close> (movegen.c) is not among the sources. It is one
  step of a selection sort: it brings the highest-scoring move in \<open>[from, count)\<close> to
  position \<open>from\<close>.
\<close>

definition top_index :: "(nat \<Rightarrow> int) \<Rightarrow> nat \<Rightarrow> nat \<Rightarrow> nat" where
  "top_index scores from count =
     fold (\<lambda>i best. if scores i > scores best then i else best) [from + 1 ..< count] from"

definition bubbleTopMove :: "MoveList \<Rightarrow> nat \<Rightarrow> MoveList" where
  "bubbleTopMove moveList from =
     (let idx = top_index (ml_scores moveList) from (ml_count moveList)
      in moveList\<lparr>ml_moves := (ml_moves moveList)
                     (from := ml_moves moveList idx, idx := ml_moves moveList from),
                  ml_scores := (ml_scores moveList)
                     (from := ml_scores moveList idx, idx := ml_scores moveList from)\<rparr>)"

text \<open>
  Modelled from the spec: the heuristic tables of movegen.c are not among the sources.
  \<open>addKiller\<close> shifts \<open>killers[ply][0]\<close> into \<open>killers[ply][1]\<close> unless the move is already the
  first killer; \<open>addCounter\<close> stores the move at the slot of the previous move's squares;
  \<open>addHistoryHeuristic\<close> and \<open>addBFHeuristic\<close> add \<open>depth * depth\<close> to the slot of the side
  to move and the move's squares.
\<close>

definition addKiller :: "SearchData \<Rightarrow> Move \<Rightarrow> SearchData" where
  "addKiller d move =
     (if sd_killers d (sd_ply d) 0 \<noteq> move
      then d\<lparr>sd_killers := (sd_killers d)
               (sd_ply d := (sd_killers d (sd_ply d))(1 := sd_killers d (sd_ply d) 0, 0 := move))\<rparr>
      else d)"

definition addCounter :: "env \<Rightarrow> SearchData \<Rightarrow> Move \<Rightarrow> Move \<Rightarrow> SearchData" where
  "addCounter E d move parent =
     d\<lparr>sd_counters := (sd_counters d)(moveStart E parent * 64 + moveEnd E parent := move)\<rparr>"

definition addHistoryHeuristic :: "env \<Rightarrow> SearchData \<Rightarrow> Move \<Rightarrow> int \<Rightarrow> SearchData" where
  "addHistoryHeuristic E d move depth =
     (let s = side (sd_board d); k = moveStart E move * 64 + moveEnd E move
      in d\<lparr>sd_hh := (sd_hh d)(s := (sd_hh d s)(k := sd_hh d s k + depth * depth))\<rparr>)"

definition addBFHeuristic :: "env \<Rightarrow> SearchData \<Rightarrow> Move \<Rightarrow> int \<Rightarrow> SearchData" where
  "addBFHeuristic E d move depth =
     (let s = side (sd_board d); k = moveStart E move * 64 + moveEnd E move
      in d\<lparr>sd_bf := (sd_bf d)(s := (sd_bf d s)(k := sd_bf d s k + depth * depth))\<rparr>)"

text \<open>
  search.c calls the table through \<open>ttProbe\<close>, \<open>ttPut\<close>, \<open>ttScore\<close>, \<open>ttFlag\<close>, \<open>ttDepth\<close>,
  \<open>ttEval\<close>, \<open>ttMove\<close> and \<open>ttClear\<close>; these are the functions of transposition.c and the
  macros of transposition.h modelled above under their capitalised names.
\<close>

definition ttDepth :: "env \<Rightarrow> TTValue \<Rightarrow> int" where
  "ttDepth E v = sint (TTDepth (macros E) v)"

definition ttPut ::
  "env \<Rightarrow> search_state \<Rightarrow> 64 word \<Rightarrow> int \<Rightarrow> int \<Rightarrow> bound \<Rightarrow> Move \<Rightarrow> int \<Rightarrow> int
     \<Rightarrow> search_state outcome" where
  "ttPut E st hash depth score flag move ply eval =
     (case TTPut (macros E) (st_tt st) hash depth score flag move ply eval of
        Inl e \<Rightarrow> Crash
      | Inr (tt, t') \<Rightarrow> Ret (st\<lparr>st_tt := t'\<rparr>))"


subsection \<open>Pieces shared by negamax and quiesce\<close>

type_synonym result = "int \<times> PV \<times> search_state"
type_synonym search_fn = "int \<Rightarrow> int \<Rightarrow> int \<Rightarrow> search_state \<Rightarrow> result outcome"
type_synonym qsearch_fn = "int \<Rightarrow> int \<Rightarrow> search_state \<Rightarrow> result outcome"

definition stopped :: "search_state \<Rightarrow> bool" where
  "stopped st = (sp_stopped (st_params st) \<noteq> 0)"

text \<open>\<open>if ((data->nodes & 2047) == 0) communicate(params);\<close>\<close>

definition poll :: "env \<Rightarrow> search_state \<Rightarrow> search_state" where
  "poll E st =
     (if sd_nodes (st_data st) mod 2048 = 0
      then st\<lparr>st_params := communicate E (sd_nodes (st_data st)) (st_params st)\<rparr>
      else st)"

text \<open>\<open>score = -negamax(...)\<close> and \<open>score = -quiesce(...)\<close>.\<close>

definition negated :: "result outcome \<Rightarrow> result outcome" where
  "negated m = obind m (\<lambda>(sc, pv, st). Ret (- sc, pv, st))"

text \<open>\<open>data->moves[data->ply++] = move; makeMove(move, data->board);\<close>\<close>

definition play :: "env \<Rightarrow> Move \<Rightarrow> search_state \<Rightarrow> search_state" where
  "play E move st =
     (let d = st_data st;
          d1 = d\<lparr>sd_moves := (sd_moves d)(sd_ply d := move), sd_ply := sd_ply d + 1\<rparr>
      in st\<lparr>st_data := d1\<lparr>sd_board := makeMove E move (sd_board d1)\<rparr>\<rparr>)"

text \<open>\<open>undoMove(move, data->board); data->ply--;\<close>\<close>

definition unplay :: "env \<Rightarrow> Move \<Rightarrow> search_state \<Rightarrow> search_state" where
  "unplay E move st =
     (let d = st_data st;
          d1 = d\<lparr>sd_board := undoMove E move (sd_board d)\<rparr>
      in st\<lparr>st_data := d1\<lparr>sd_ply := sd_ply d1 - 1\<rparr>\<rparr>)"

subsection \<open>negamax, lines 116..327\<close>

text \<open>
  Lines 128..147: node count, draws, the ply limit, mate distance pruning, the poll of the
  input. The flow either returns from \<open>negamax\<close> or goes on with the window and the state.
\<close>

definition negamax_entry ::
  "env \<Rightarrow> int \<Rightarrow> int \<Rightarrow> search_state \<Rightarrow> (result, int \<times> int \<times> search_state) step" where
  "negamax_entry E alpha beta st =
     (let d0 = st_data st;
          isRoot = (sd_ply d0 = 0);
          d1 = d0\<lparr>sd_nodes := sd_nodes d0 + 1\<rparr>;
          d2 = d1\<lparr>sd_seldepth := max (sd_ply d1) (sd_seldepth d1)\<rparr>;
          st1 = st\<lparr>st_data := d2\<rparr>;
          b = sd_board d2
      in if \<not> isRoot \<and> (isRepetition E b \<or> isMaterialDraw E b \<or> halfMove b > 99)
         then Return (0, [], st1)
         else if \<not> isRoot \<and> sd_ply d2 > MAX_DEPTH E - 1
         then Return (Evaluate E b, [], st1)
         else
           (let alpha1 = (if isRoot then alpha else max alpha (- CHECKMATE + sd_ply d2));
                beta1 = (if isRoot then beta else min beta (CHECKMATE - sd_ply d2 - 1))
            in if \<not> isRoot \<and> alpha1 \<ge> beta1 then Return (alpha1, [], st1)
               else Go (alpha1, beta1, poll E st1)))"

text \<open>Lines 150..162: the cutoff from the table, taken only from an entry deep enough.\<close>

definition tt_cutoff :: "env \<Rightarrow> TTValue \<Rightarrow> int \<Rightarrow> int \<Rightarrow> int \<Rightarrow> int \<Rightarrow> int option" where
  "tt_cutoff E ttValue depth ply alpha beta =
     (if ttValue \<noteq> 0 \<and> ttDepth E ttValue \<ge> depth then
        (let score = TTScore ttValue ply;
             flag = TTFlag (macros E) ttValue
         in if flag = TT_EXACT then Some score
            else if flag = TT_LOWER \<and> score \<ge> beta then Some score
            else if flag = TT_UPPER \<and> score \<le> alpha then Some score
            else None)
      else None)"

text \<open>Lines 164..171: the static evaluation, \<open>improving\<close>, and the reset of the child's slots.\<close>

definition negamax_eval ::
  "env \<Rightarrow> TTValue \<Rightarrow> search_state \<Rightarrow> (int \<times> bool \<times> search_state) outcome" where
  "negamax_eval E ttValue st =
     (let d = st_data st;
          ply = sd_ply d;
          eval = (if ttValue \<noteq> 0 then TTEval (macros E) ttValue else Evaluate E (sd_board d));
          d1 = d\<lparr>sd_evals := (sd_evals d)(ply := eval)\<rparr>;
          improving = (ply \<ge> 2 \<and> sd_evals d1 ply > sd_evals d1 (ply - 2))
      in if eval \<noteq> Evaluate E (sd_board d) then Crash
         else
           (let d2 = d1\<lparr>sd_skipMove := (sd_skipMove d1)(ply + 1 := NULL_MOVE)\<rparr>;
                d3 = d2\<lparr>sd_killers := (sd_killers d2)
                         (ply + 1 := (sd_killers d2 (ply + 1))(0 := NULL_MOVE, 1 := NULL_MOVE))\<rparr>
            in Ret (eval, improving, st\<lparr>st_data := d3\<rparr>)))"

text \<open>Lines 174..178.\<close>

definition refine_eval :: "env \<Rightarrow> TTValue \<Rightarrow> int \<Rightarrow> int \<Rightarrow> int \<Rightarrow> int" where
  "refine_eval E ttValue depth ply eval =
     (if ttValue \<noteq> 0 \<and> ttDepth E ttValue \<ge> depth then
        (let ttEvalFromScore = TTScore ttValue ply
         in if TTFlag (macros E) ttValue = (if ttEvalFromScore > eval then TT_LOWER else TT_UPPER)
            then ttEvalFromScore else eval)
      else eval)"

text \<open>
  Lines 173..205: reverse futility pruning and null move pruning. \<open>rec\<close> stands for the
  recursive call of \<open>negamax\<close>. The flow goes on with \<open>childPv\<close> (not yet written when no null
  move was searched) and the state.
\<close>

definition negamax_prune ::
  "search_fn \<Rightarrow> env \<Rightarrow> bool \<Rightarrow> Move \<Rightarrow> TTValue \<Rightarrow> int \<Rightarrow> int \<Rightarrow> int \<Rightarrow> search_state
     \<Rightarrow> (result, PV \<times> search_state) step outcome" where
  "negamax_prune rec E isPV skipMove ttValue beta depth eval0 st =
     (let d = st_data st;
          ply = sd_ply d;
          b = sd_board d
      in if \<not> isPV \<and> checkers b = 0 then
           (let eval = refine_eval E ttValue depth ply eval0
            in if depth \<le> 6 \<and> eval - FUTILITY depth \<ge> beta \<and> eval < MATE_BOUND
               then Ret (Return (eval, [], st))
               else if depth \<ge> 3 \<and> sd_moves d (ply - 1) \<noteq> NULL_MOVE \<and> skipMove = 0
                       \<and> eval \<ge> beta \<and> hasNonPawn E b
               then
                 (let R0 = 3 + cdiv depth 6 + min (cdiv (eval - beta) 200) 3;
                      R = (if R0 > depth then depth else R0);
                      d1 = d\<lparr>sd_moves := (sd_moves d)(ply := NULL_MOVE), sd_ply := ply + 1\<rparr>;
                      d2 = d1\<lparr>sd_board := nullMove E (sd_board d1)\<rparr>
                  in obind (negated (rec (- beta) (- beta + 1) (depth - R) (st\<lparr>st_data := d2\<rparr>)))
                       (\<lambda>(score, childPv, st1).
                          let d3 = st_data st1;
                              d4 = d3\<lparr>sd_board := undoNullMove E (sd_board d3)\<rparr>;
                              st2 = st1\<lparr>st_data := d4\<lparr>sd_ply := sd_ply d4 - 1\<rparr>\<rparr>
                          in if stopped st2 then Ret (Return (0, [], st2))
                             else if score \<ge> beta then Ret (Return (beta, [], st2))
                             else Ret (Go (childPv, st2))))
               else Ret (Go ([], st)))
         else Ret (Go ([], st)))"

text \<open>What stays fixed during the move loop of a node, and what the loop changes.\<close>

record nm_frame =
  nf_depth :: int
  nf_beta :: int
  nf_a0 :: int
  nf_isPV :: bool
  nf_isRoot :: bool
  nf_skipMove :: Move
  nf_improving :: bool
  nf_ttValue :: TTValue

record nm_vars =
  nv_i :: nat
  nv_moveList :: MoveList
  nv_numMoves :: int
  nv_bestScore :: int
  nv_bestMove :: Move
  nv_alpha :: int
  nv_pv :: PV
  nv_childPv :: PV
  nv_st :: search_state

definition is_tactical :: "env \<Rightarrow> Move \<Rightarrow> bool" where
  "is_tactical E move = (movePromo E move \<noteq> 0 \<or> moveCapture E move \<noteq> 0)"

text \<open>Lines 220..226: late move pruning and SEE pruning.\<close>

definition pruned :: "env \<Rightarrow> nm_frame \<Rightarrow> nm_vars \<Rightarrow> Move \<Rightarrow> bool" where
  "pruned E F V move =
     (let tactical = is_tactical E move
      in \<not> nf_isPV F \<and> nv_bestScore V > - MATE_BOUND
         \<and> ((nf_depth F \<le> 8 \<and> \<not> tactical
              \<and> nv_numMoves V \<ge> LMP (nf_improving F) (nf_depth F))
            \<or> see E (sd_board (st_data (nv_st V))) move < SEE tactical (nf_depth F)))"

text \<open>
  Lines 228..242: the singular extension search. The flow returns \<open>sBeta\<close> from \<open>negamax\<close> or
  goes on with \<open>singularExtension\<close>, the node's \<open>pv\<close> (which the search overwrites) and the
  state.
\<close>

definition singular_applies :: "env \<Rightarrow> nm_frame \<Rightarrow> int \<Rightarrow> Move \<Rightarrow> bool" where
  "singular_applies E F ply move =
     (nf_depth F \<ge> 8 \<and> nf_skipMove F = 0 \<and> \<not> nf_isRoot F
      \<and> move = TTMove (macros E) (nf_ttValue F)
      \<and> ttDepth E (nf_ttValue F) \<ge> nf_depth F - 3
      \<and> \<bar>TTScore (nf_ttValue F) ply\<bar> < MATE_BOUND
      \<and> TTFlag (macros E) (nf_ttValue F) = TT_LOWER)"

definition iter_singular ::
  "search_fn \<Rightarrow> env \<Rightarrow> nm_frame \<Rightarrow> Move \<Rightarrow> PV \<Rightarrow> search_state
     \<Rightarrow> (result, bool \<times> PV \<times> search_state) step outcome" where
  "iter_singular rec E F move pv st =
     (let d = st_data st;
          ply = sd_ply d
      in if singular_applies E F ply move then
           (let sBeta = max (TTScore (nf_ttValue F) ply - nf_depth F * 2) (- CHECKMATE);
                sDepth = cdiv (nf_depth F) 2 - 1;
                st1 = st\<lparr>st_data := d\<lparr>sd_skipMove := (sd_skipMove d)(ply := move)\<rparr>\<rparr>
            in obind (rec (sBeta - 1) sBeta sDepth st1)
                 (\<lambda>(score, pv1, st2).
                    let d2 = st_data st2;
                        st3 = st2\<lparr>st_data :=
                                d2\<lparr>sd_skipMove := (sd_skipMove d2)(sd_ply d2 := NULL_MOVE)\<rparr>\<rparr>
                    in if score < sBeta then Ret (Go (True, pv1, st3))
                       else if sBeta \<ge> nf_beta F then Ret (Return (sBeta, pv1, st3))
                       else Ret (Go (False, pv1, st3))))
         else Ret (Go (False, pv, st)))"

text \<open>Lines 253..266: the late move reduction.\<close>

definition lmr_R :: "env \<Rightarrow> nm_frame \<Rightarrow> int \<Rightarrow> bool \<Rightarrow> int \<Rightarrow> int" where
  "lmr_R E F numMoves tactical mscore =
     (if nf_depth F \<ge> 2 \<and> numMoves > 1 \<and> \<not> tactical then
        (let R0 = LMR E (min (nf_depth F) 63) (min numMoves 63);
             R1 = R0 + (if nf_isPV F then 0 else 1) + (if nf_improving F then 0 else 1)
                    - (if mscore \<ge> COUNTER E then 1 else 0);
             R2 = (if mscore \<ge> COUNTER E then R1 - 1 else R1 - min 2 (cdiv (mscore - 149) 50))
         in min (nf_depth F - 1) (max R2 1))
      else 1)"

text \<open>Lines 296..307: killer, counter, history and butterfly updates at a beta cutoff.\<close>

definition cutoff_heuristics ::
  "env \<Rightarrow> int \<Rightarrow> MoveList \<Rightarrow> nat \<Rightarrow> Move \<Rightarrow> SearchData \<Rightarrow> SearchData" where
  "cutoff_heuristics E depth moveList i move d =
     (let d1 = (if \<not> is_tactical E move then
                  (let k = addKiller d move;
                       c = addCounter E k move (sd_moves k (sd_ply k - 1))
                   in addHistoryHeuristic E c move depth)
                else d)
      in fold (\<lambda>j d'. if moveCapture E (ml_moves moveList j) \<noteq> 0
                          \<or> movePromo E (ml_moves moveList j) \<noteq> 0
                       then d' else addBFHeuristic E d' (ml_moves moveList j) depth)
           [0 ..< i] d1)"

text \<open>
  Lines 244..275: the move is counted and played, and searched by the re-search ladder. The
  result is the score of the last search, \<open>childPv\<close>, and the state before the move is
  unplayed.
\<close>

definition search_ladder ::
  "search_fn \<Rightarrow> env \<Rightarrow> nm_frame \<Rightarrow> nm_vars \<Rightarrow> Move \<Rightarrow> bool \<Rightarrow> result outcome" where
  "search_ladder rec E F V move singularExtension =
     (let depth = nf_depth F;
          beta = nf_beta F;
          isPV = nf_isPV F;
          alpha = nv_alpha V;
          tactical = is_tactical E move;
          numMoves = nv_numMoves V + 1;
          st1 = play E move (nv_st V);
          score0 = alpha + 1;
          newDepth = (if singularExtension \<or> checkers (sd_board (st_data st1)) \<noteq> 0
                      then depth + 1 else depth);
          R = lmr_R E F numMoves tactical (ml_scores (nv_moveList V) (nv_i V))
      in obind (if R \<noteq> 1 then negated (rec (- alpha - 1) (- alpha) (newDepth - R) st1)
                else Ret (score0, nv_childPv V, st1))
           (\<lambda>(score1, childPv1, st2).
         obind (if (R \<noteq> 1 \<and> score1 > alpha) \<or> (R = 1 \<and> (\<not> isPV \<or> numMoves > 1))
                then negated (rec (- alpha - 1) (- alpha) (newDepth - 1) st2)
                else Ret (score1, childPv1, st2))
           (\<lambda>(score2, childPv2, st3).
            if isPV \<and> (numMoves = 1 \<or> (score2 > alpha \<and> (nf_isRoot F \<or> score2 < beta)))
            then negated (rec (- beta) (- alpha) (newDepth - 1) st3)
            else Ret (score2, childPv2, st3))))"

text \<open>
  Lines 277..311: the move is unplayed and the stop flag read; then the best score, alpha
  and the principal variation are updated, and a beta cutoff breaks out of the loop.
\<close>

definition iter_update ::
  "env \<Rightarrow> nm_frame \<Rightarrow> nm_vars \<Rightarrow> Move \<Rightarrow> result \<Rightarrow> (result, nm_vars) flow" where
  "iter_update E F V move res =
     (case res of (score, childPv, st4) \<Rightarrow>
        (let st5 = unplay E move st4;
             V1 = V\<lparr>nv_numMoves := nv_numMoves V + 1, nv_childPv := childPv, nv_st := st5\<rparr>
         in if stopped st5 then Leave (0, nv_pv V, st5)
            else if score > nv_bestScore V then
              (let V2 = V1\<lparr>nv_bestScore := score, nv_bestMove := move\<rparr>;
                   V3 = (if score > nv_alpha V
                         then V2\<lparr>nv_alpha := score, nv_pv := move # childPv\<rparr> else V2)
               in if nv_alpha V3 \<ge> nf_beta F then
                    Break (V3\<lparr>nv_st := st5\<lparr>st_data :=
                             cutoff_heuristics E (nf_depth F) (nv_moveList V) (nv_i V) move
                               (st_data st5)\<rparr>\<rparr>)
                  else Next V3)
            else Next V1))"

definition iter_search ::
  "search_fn \<Rightarrow> env \<Rightarrow> nm_frame \<Rightarrow> nm_vars \<Rightarrow> Move \<Rightarrow> bool \<Rightarrow> (result, nm_vars) flow outcome" where
  "iter_search rec E F V move singularExtension =
     obind (search_ladder rec E F V move singularExtension)
       (\<lambda>res. Ret (iter_update E F V move res))"

text \<open>Lines 212..311: one iteration of the move loop.\<close>

definition negamax_iter ::
  "search_fn \<Rightarrow> env \<Rightarrow> nm_frame \<Rightarrow> nm_vars \<Rightarrow> (result, nm_vars) flow outcome" where
  "negamax_iter rec E F V =
     (let moveList = bubbleTopMove (nv_moveList V) (nv_i V);
          move = ml_moves moveList (nv_i V);
          V0 = V\<lparr>nv_moveList := moveList\<rparr>
      in if nf_skipMove F = move then Ret (Next V0)
         else if pruned E F V0 move then Ret (Next V0)
         else obind (iter_singular rec E F move (nv_pv V0) (nv_st V0))
                (\<lambda>fl. case fl of
                   Return r \<Rightarrow> Ret (Leave r)
                 | Go (singularExtension, pv1, st1) \<Rightarrow>
                     iter_search rec E F (V0\<lparr>nv_pv := pv1, nv_st := st1\<rparr>) move singularExtension))"

text \<open>Line 319.\<close>

definition node_bound :: "int \<Rightarrow> int \<Rightarrow> int \<Rightarrow> bound" where
  "node_bound bestScore beta a0 =
     (if bestScore \<ge> beta then TT_LOWER else if bestScore \<le> a0 then TT_UPPER else TT_EXACT)"

text \<open>Lines 314..326: mate and stalemate, the write to the table, the result.\<close>

definition negamax_finish :: "env \<Rightarrow> nm_frame \<Rightarrow> nm_vars \<Rightarrow> result outcome" where
  "negamax_finish E F V =
     (let st = nv_st V;
          d = st_data st;
          b = sd_board d;
          bestScore = nv_bestScore V
      in if ml_count (nv_moveList V) = 0
         then Ret ((if checkers b \<noteq> 0 then - CHECKMATE + sd_ply d else 0), nv_pv V, st)
         else obind (if nf_skipMove F = 0
                     then ttPut E st (zobrist b) (nf_depth F) bestScore
                            (node_bound bestScore (nf_beta F) (nf_a0 F)) (nv_bestMove V)
                            (sd_ply d) (sd_evals d (sd_ply d))
                     else Ret st)
                (\<lambda>st1. if \<not> (bestScore \<ge> - CHECKMATE \<and> bestScore \<le> CHECKMATE) then Crash
                        else Ret (bestScore, nv_pv V, st1)))"

text \<open>
  Lines 128..208 of a node with \<open>depth \<noteq> 0\<close>: everything before the move loop. The flow
  returns from \<open>negamax\<close> or goes on with the frame and the initial variables of the loop;
  \<open>a0\<close> is the alpha the node was called with, \<open>nf_beta\<close> the beta after line 141.
\<close>

definition negamax_node ::
  "search_fn \<Rightarrow> env \<Rightarrow> int \<Rightarrow> int \<Rightarrow> int \<Rightarrow> search_state
     \<Rightarrow> (result, nm_frame \<times> nm_vars) step outcome" where
  "negamax_node rec E alpha beta depth st =
     (let isPV = (beta - alpha \<noteq> 1);
          isRoot = (sd_ply (st_data st) = 0);
          a0 = alpha;
          skipMove = sd_skipMove (st_data st) (sd_ply (st_data st))
      in case negamax_entry E alpha beta st of
           Return r \<Rightarrow> Ret (Return r)
         | Go (alpha1, beta1, st2) \<Rightarrow>
             (let d = st_data st2;
                  ttValue = (if skipMove \<noteq> 0 then NO_ENTRY
                             else TTProbe (st_tt st2) (zobrist (sd_board d)))
              in case tt_cutoff E ttValue depth (sd_ply d) alpha1 beta1 of
                   Some score \<Rightarrow> Ret (Return (score, [], st2))
                 | None \<Rightarrow>
                     obind (negamax_eval E ttValue st2)
                       (\<lambda>(eval, improving, st3).
                     obind (negamax_prune rec E isPV skipMove ttValue beta1 depth eval st3)
                       (\<lambda>fl. case fl of
                          Return r \<Rightarrow> Ret (Return r)
                        | Go (childPv, st4) \<Rightarrow>
                            Ret (Go
                              (\<lparr>nf_depth = depth, nf_beta = beta1, nf_a0 = a0,
                                nf_isPV = isPV, nf_isRoot = isRoot,
                                nf_skipMove = skipMove, nf_improving = improving,
                                nf_ttValue = ttValue\<rparr>,
                               \<lparr>nv_i = 0,
                                nv_moveList = generateMoves E (st_data st4),
                                nv_numMoves = 0, nv_bestScore = - CHECKMATE,
                                nv_bestMove = 0, nv_alpha = alpha1, nv_pv = [],
                                nv_childPv = childPv, nv_st = st4\<rparr>))))))"

text \<open>
  The body of \<open>negamax\<close>, with \<open>rec\<close>, \<open>recq\<close> and \<open>loop\<close> for the calls of \<open>negamax\<close>, of
  \<open>quiesce\<close> and for the move loop.
\<close>

definition negamax_body ::
  "search_fn \<Rightarrow> qsearch_fn \<Rightarrow> (nm_frame \<Rightarrow> nm_vars \<Rightarrow> (result, nm_vars) flow outcome) \<Rightarrow> env
     \<Rightarrow> int \<Rightarrow> int \<Rightarrow> int \<Rightarrow> search_state \<Rightarrow> result outcome" where
  "negamax_body rec recq loop E alpha beta depth st =
     (if depth = 0 then recq alpha beta st
      else
        obind (negamax_node rec E alpha beta depth st)
          (\<lambda>fl. case fl of
             Return r \<Rightarrow> Ret r
           | Go (F, V) \<Rightarrow>
               obind (loop F V)
                 (\<lambda>fl. case fl of
                    Leave r \<Rightarrow> Ret r
                  | Break V' \<Rightarrow> negamax_finish E F V'
                  | Next V' \<Rightarrow> negamax_finish E F V')))"

subsection \<open>quiesce, lines 329..423\<close>

text \<open>Lines 333..343.\<close>

definition quiesce_entry :: "env \<Rightarrow> search_state \<Rightarrow> (result, search_state) step" where
  "quiesce_entry E st =
     (let d0 = st_data st;
          d1 = d0\<lparr>sd_nodes := sd_nodes d0 + 1\<rparr>;
          d2 = d1\<lparr>sd_seldepth := max (sd_ply d1) (sd_seldepth d1)\<rparr>;
          st1 = st\<lparr>st_data := d2\<rparr>;
          b = sd_board d2
      in if isMaterialDraw E b \<or> isRepetition E b \<or> halfMove b > 99 then Return (0, [], st1)
         else if sd_ply d2 > MAX_DEPTH E - 1 then Return (Evaluate E b, [], st1)
         else Go (poll E st1))"

text \<open>Lines 346..356: the cutoff from the table; the stored depth is not read.\<close>

definition tt_cutoff_quiesce :: "env \<Rightarrow> TTValue \<Rightarrow> int \<Rightarrow> int \<Rightarrow> int \<Rightarrow> int option" where
  "tt_cutoff_quiesce E ttValue ply alpha beta =
     (if ttValue \<noteq> 0 then
        (let score = TTScore ttValue ply;
             flag = TTFlag (macros E) ttValue
         in if flag = TT_EXACT then Some score
            else if flag = TT_LOWER \<and> score \<ge> beta then Some score
            else if flag = TT_UPPER \<and> score \<le> alpha then Some score
            else None)
      else None)"

text \<open>Lines 358..363: the stand-pat evaluation; the static one is recorded in \<open>evals\<close>.\<close>

definition stand_pat :: "env \<Rightarrow> TTValue \<Rightarrow> search_state \<Rightarrow> int \<times> search_state" where
  "stand_pat E ttValue st =
     (let d = st_data st;
          ply = sd_ply d;
          eval = (if ttValue \<noteq> 0 then TTEval (macros E) ttValue else Evaluate E (sd_board d));
          st1 = st\<lparr>st_data := d\<lparr>sd_evals := (sd_evals d)(ply := eval)\<rparr>\<rparr>
      in if ttValue \<noteq> 0 then
           (let ttEval = TTScore ttValue ply
            in if TTFlag (macros E) ttValue = (if ttEval > eval then TT_LOWER else TT_UPPER)
               then (ttEval, st1) else (eval, st1))
         else (eval, st1))"

record q_frame =
  qf_beta :: int
  qf_eval :: int

record q_vars =
  qv_i :: nat
  qv_moveList :: MoveList
  qv_bestScore :: int
  qv_alpha :: int
  qv_pv :: PV
  qv_childPv :: PV
  qv_st :: search_state

text \<open>Line 384: the captured piece, a pawn of the other side for an en-passant capture.\<close>

definition captured_piece :: "env \<Rightarrow> Board \<Rightarrow> Move \<Rightarrow> int" where
  "captured_piece E b move =
     (if moveEP E move \<noteq> 0 then PAWN E (xside b) else squares b (moveEnd E move))"

text \<open>Lines 380..393: what happens to a move before it is played.\<close>

datatype verdict = Skip | Stop | Play | AssertFails

definition quiesce_filter :: "env \<Rightarrow> q_frame \<Rightarrow> int \<Rightarrow> Board \<Rightarrow> Move \<Rightarrow> int \<Rightarrow> verdict" where
  "quiesce_filter E F alpha b move mscore =
     (if movePromo E move \<noteq> 0 then
        (if movePromo E move < QUEEN E WHITE then Skip
         else if mscore < 0 then Stop else Play)
      else
        (let captured = captured_piece E b move
         in if \<not> captured \<noteq> NO_PIECE E then AssertFails
            else if qf_eval F + DELTA_CUTOFF + STATIC_MATERIAL_VALUE E (PIECE_TYPE E captured) < alpha
            then Skip
            else if mscore < 0 then Stop else Play))"

text \<open>Lines 400..419: after the search of a move.\<close>

definition quiesce_update :: "q_frame \<Rightarrow> q_vars \<Rightarrow> Move \<Rightarrow> env \<Rightarrow> result \<Rightarrow> (result, q_vars) flow" where
  "quiesce_update F V move E res =
     (case res of (score, childPv, st1) \<Rightarrow>
        (let st2 = unplay E move st1;
             V1 = V\<lparr>qv_childPv := childPv, qv_st := st2\<rparr>
         in if stopped st2 then Leave (0, qv_pv V, st2)
            else if score > qv_bestScore V then
              (let V2 = V1\<lparr>qv_bestScore := score\<rparr>;
                   V3 = (if score > qv_alpha V
                         then V2\<lparr>qv_alpha := score, qv_pv := move # childPv\<rparr> else V2)
               in if qv_alpha V3 \<ge> qf_beta F then Break V3 else Next V3)
            else Next V1))"

text \<open>Lines 377..419: one iteration of the move loop of \<open>quiesce\<close>.\<close>

definition quiesce_iter ::
  "qsearch_fn \<Rightarrow> env \<Rightarrow> q_frame \<Rightarrow> q_vars \<Rightarrow> (result, q_vars) flow outcome" where
  "quiesce_iter recq E F V =
     (let moveList = bubbleTopMove (qv_moveList V) (qv_i V);
          move = ml_moves moveList (qv_i V);
          V0 = V\<lparr>qv_moveList := moveList\<rparr>
      in case quiesce_filter E F (qv_alpha V) (sd_board (st_data (qv_st V))) move
                (ml_scores moveList (qv_i V)) of
           AssertFails \<Rightarrow> Crash
         | Skip \<Rightarrow> Ret (Next V0)
         | Stop \<Rightarrow> Ret (Break V0)
         | Play \<Rightarrow>
             obind (negated (recq (- qf_beta F) (- qv_alpha V) (play E move (qv_st V))))
               (\<lambda>res. Ret (quiesce_update F V0 move E res)))"

text \<open>
  Lines 333..374: everything before the move loop of \<open>quiesce\<close>. The flow returns or goes
  on with the frame (beta and the stand-pat evaluation) and the initial variables.
\<close>

definition quiesce_node ::
  "env \<Rightarrow> int \<Rightarrow> int \<Rightarrow> search_state \<Rightarrow> (result, q_frame \<times> q_vars) step" where
  "quiesce_node E alpha beta st =
     (case quiesce_entry E st of
        Return r \<Rightarrow> Return r
      | Go st1 \<Rightarrow>
          (let d = st_data st1;
               ttValue = TTProbe (st_tt st1) (zobrist (sd_board d))
           in case tt_cutoff_quiesce E ttValue (sd_ply d) alpha beta of
                Some score \<Rightarrow> Return (score, [], st1)
              | None \<Rightarrow>
                  (let (eval, st2) = stand_pat E ttValue st1
                   in if eval \<ge> beta then Return (eval, [], st2)
                      else
                        (let alpha1 = (if eval > alpha then eval else alpha)
                         in Go (\<lparr>qf_beta = beta, qf_eval = eval\<rparr>,
                                  \<lparr>qv_i = 0,
                                   qv_moveList = generateQuiesceMoves E (st_data st2),
                                   qv_bestScore = eval, qv_alpha = alpha1, qv_pv = [],
                                   qv_childPv = [], qv_st = st2\<rparr>)))))"

text \<open>The body of \<open>quiesce\<close>, with \<open>loop\<close> for its move loop.\<close>

definition quiesce_body ::
  "(q_frame \<Rightarrow> q_vars \<Rightarrow> (result, q_vars) flow outcome) \<Rightarrow> env \<Rightarrow> int \<Rightarrow> int \<Rightarrow> search_state
     \<Rightarrow> result outcome" where
  "quiesce_body loop E alpha beta st =
     (case quiesce_node E alpha beta st of
        Return r \<Rightarrow> Ret r
      | Go (F, V) \<Rightarrow>
          obind (loop F V)
            (\<lambda>fl. case fl of
               Leave r \<Rightarrow> Ret r
             | Break V' \<Rightarrow> Ret (qv_bestScore V', qv_pv V', qv_st V')
             | Next V' \<Rightarrow> Ret (qv_bestScore V', qv_pv V', qv_st V')))"

subsection \<open>The recursion\<close>

text \<open>
  \<open>negamax\<close> and \<open>quiesce\<close> call each other and themselves. The first argument bounds the
  number of nested calls and loop iterations; a run that needs more ends in \<open>Timeout\<close>. A
  loop ends with \<open>Leave\<close> at a \<open>return\<close>, with \<open>Break\<close> after a \<open>break\<close> and with \<open>Next\<close> when the
  list is exhausted.
\<close>

fun negamax :: "nat \<Rightarrow> env \<Rightarrow> int \<Rightarrow> int \<Rightarrow> int \<Rightarrow> search_state \<Rightarrow> result outcome"
  and negamax_loop :: "nat \<Rightarrow> env \<Rightarrow> nm_frame \<Rightarrow> nm_vars \<Rightarrow> (result, nm_vars) flow outcome"
  and quiesce :: "nat \<Rightarrow> env \<Rightarrow> int \<Rightarrow> int \<Rightarrow> search_state \<Rightarrow> result outcome"
  and quiesce_loop :: "nat \<Rightarrow> env \<Rightarrow> q_frame \<Rightarrow> q_vars \<Rightarrow> (result, q_vars) flow outcome"
where
  "negamax 0 E alpha beta depth st = Timeout"
| "negamax (Suc n) E alpha beta depth st =
     negamax_body (\<lambda>a b d s. negamax n E a b d s) (\<lambda>a b s. quiesce n E a b s)
       (\<lambda>F V. negamax_loop n E F V) E alpha beta depth st"
| "negamax_loop 0 E F V = Timeout"
| "negamax_loop (Suc n) E F V =
     (if nv_i V < ml_count (nv_moveList V) then
        obind (negamax_iter (\<lambda>a b d s. negamax n E a b d s) E F V)
          (\<lambda>fl. case fl of
             Leave r \<Rightarrow> Ret (Leave r)
           | Break V' \<Rightarrow> Ret (Break V')
           | Next V' \<Rightarrow> negamax_loop n E F (V'\<lparr>nv_i := nv_i V' + 1\<rparr>))
      else Ret (Next V))"
| "quiesce 0 E alpha beta st = Timeout"
| "quiesce (Suc n) E alpha beta st =
     quiesce_body (\<lambda>F V. quiesce_loop n E F V) E alpha beta st"
| "quiesce_loop 0 E F V = Timeout"
| "quiesce_loop (Suc n) E F V =
     (if qv_i V < ml_count (qv_moveList V) then
        obind (quiesce_iter (\<lambda>a b s. quiesce n E a b s) E F V)
          (\<lambda>fl. case fl of
             Leave r \<Rightarrow> Ret (Leave r)
           | Break V' \<Rightarrow> Ret (Break V')
           | Next V' \<Rightarrow> quiesce_loop n E F (V'\<lparr>qv_i := qv_i V' + 1\<rparr>))
      else Ret (Next V))"

subsection \<open>Search, lines 76..114\<close>

text \<open>Lines 63..74.\<close>

definition initSearchData :: "SearchData \<Rightarrow> SearchData" where
  "initSearchData d =
     d\<lparr>sd_nodes := 0, sd_seldepth := 0, sd_ply := 0,
       sd_skipMove := (\<lambda>_. 0), sd_evals := (\<lambda>_. 0), sd_moves := (\<lambda>_. 0),
       sd_killers := (\<lambda>_ _. 0), sd_counters := (\<lambda>_. 0),
       sd_hh := (\<lambda>_ _. 0), sd_bf := (\<lambda>_ _. 0)\<rparr>"

definition printInfo :: "PV \<Rightarrow> int \<Rightarrow> int \<Rightarrow> search_state \<Rightarrow> search_state" where
  "printInfo pv score depth st = st\<lparr>st_out := st_out st @ [InfoLine pv score depth]\<rparr>"

text \<open>The variables of the aspiration loop, lines 93..107.\<close>

record asp_vars =
  av_delta :: int
  av_alpha :: int
  av_beta :: int
  av_score :: int
  av_pv :: PV
  av_st :: search_state

text \<open>Lines 89..91: the window a depth starts with.\<close>

definition window_init :: "int \<Rightarrow> int \<Rightarrow> PV \<Rightarrow> search_state \<Rightarrow> asp_vars" where
  "window_init depth score pv st =
     (let delta = (if depth \<ge> 5 then 10 else CHECKMATE)
      in \<lparr>av_delta = delta,
          av_alpha = max (score - delta) (- CHECKMATE),
          av_beta = min (score + delta) CHECKMATE,
          av_score = score, av_pv = pv, av_st = st\<rparr>)"

text \<open>Lines 94..106: one pass of the aspiration loop, with \<open>rec\<close> for the call of \<open>negamax\<close>.\<close>

definition aspiration_iter ::
  "search_fn \<Rightarrow> int \<Rightarrow> asp_vars \<Rightarrow> (unit, asp_vars) flow outcome" where
  "aspiration_iter rec depth A =
     obind (rec (av_alpha A) (av_beta A) depth (av_st A))
       (\<lambda>(score, pv, st).
          let A1 = A\<lparr>av_score := score, av_pv := pv, av_st := st\<rparr>
          in if score \<le> av_alpha A then
               Ret (Next (A1\<lparr>av_beta := cdiv (av_alpha A + av_beta A) 2,
                              av_alpha := max (av_alpha A - av_delta A) (- CHECKMATE),
                              av_delta := av_delta A + cdiv (av_delta A) 2\<rparr>))
             else if score \<ge> av_beta A then
               Ret (Next (A1\<lparr>av_beta := min (av_beta A + av_delta A) CHECKMATE,
                              av_delta := av_delta A + cdiv (av_delta A) 2\<rparr>))
             else Ret (Break (A1\<lparr>av_st := printInfo pv score depth st\<rparr>)))"

fun aspiration_loop :: "nat \<Rightarrow> env \<Rightarrow> int \<Rightarrow> asp_vars \<Rightarrow> asp_vars outcome" where
  "aspiration_loop 0 E depth A = Timeout"
| "aspiration_loop (Suc n) E depth A =
     (if \<not> stopped (av_st A) then
        obind (aspiration_iter (\<lambda>a b d s. negamax n E a b d s) depth A)
          (\<lambda>fl. case fl of
             Leave r \<Rightarrow> Crash
           | Break A' \<Rightarrow> Ret A'
           | Next A' \<Rightarrow> aspiration_loop n E depth A')
      else Ret A)"

text \<open>Lines 88..108: the iterative deepening loop.\<close>

fun deepen :: "nat \<Rightarrow> env \<Rightarrow> int \<Rightarrow> int \<Rightarrow> PV \<Rightarrow> search_state \<Rightarrow> result outcome" where
  "deepen 0 E depth score pv st = Timeout"
| "deepen (Suc n) E depth score pv st =
     (if depth \<le> sp_depth (st_params st) \<and> \<not> stopped st then
        obind (aspiration_loop n E depth (window_init depth score pv st))
          (\<lambda>A. deepen n E (depth + 1) (av_score A) (av_pv A) (av_st A))
      else Ret (score, pv, st))"

definition Search :: "nat \<Rightarrow> env \<Rightarrow> search_state \<Rightarrow> search_state outcome" where
  "Search n E st =
     (let st1 = st\<lparr>st_tt := TTClear (st_tt st), st_data := initSearchData (st_data st)\<rparr>;
          alpha = - CHECKMATE;
          beta = CHECKMATE
      in obind (negamax n E alpha beta 1 st1)
           (\<lambda>(score, pv, st2).
         obind (deepen n E 2 score pv (printInfo pv score 1 st2))
           (\<lambda>(score, pv, st3).
              let d = st_data st3;
                  d1 = d\<lparr>sd_bestMove :=
                          TTMove (macros E) (TTProbe (st_tt st3) (zobrist (sd_board d)))\<rparr>;
                  d2 = d1\<lparr>sd_score := score\<rparr>
              in Ret (st3\<lparr>st_data := d2,
                          st_out := st_out st3 @ [BestMoveLine (sd_bestMove d2)]\<rparr>))))"


subsection \<open>A small game to run the search on\<close>

text \<open>
  A board whose move counter tells the root (0) from its successors; the root has one
  capture, move 7, and no other position has a move. The static evaluation is 50 for the
  side to move at the root and -50 after the capture. Move 9 is a promotion to a queen. The
  input asks to stop from node 2048 on.
\<close>

definition sample_board :: Board where
  "sample_board =
     \<lparr>pieces = (\<lambda>_. 0), occupancies = (\<lambda>_. 0), squares = (\<lambda>_. 1), checkers = 0,
      pinners = 0, piecesCounts = 0, side = 0, xside = 1, epSquare = 0, castling = 0,
      moveNo = 0, halfMove = 0, zobrist = 5, zobristHistory = (\<lambda>_. 0),
      castlingHistory = (\<lambda>_. 0), epSquareHistory = (\<lambda>_. 0), captureHistory = (\<lambda>_. 0),
      halfMoveHistory = (\<lambda>_. 0)\<rparr>"

definition sample_moves :: "SearchData \<Rightarrow> MoveList" where
  "sample_moves d =
     (if moveNo (sd_board d) = 0
      then \<lparr>ml_count = 1, ml_moves = (\<lambda>_. 7), ml_scores = (\<lambda>_. 10)\<rparr>
      else \<lparr>ml_count = 0, ml_moves = (\<lambda>_. 7), ml_scores = (\<lambda>_. 10)\<rparr>)"

definition sample_env :: env where
  "sample_env =
     \<lparr>macros = sample_macros, MAX_DEPTH = 128, COUNTER = 1000, LMR = (\<lambda>d m. 1),
      isRepetition = (\<lambda>b. False), isMaterialDraw = (\<lambda>b. False), hasNonPawn = (\<lambda>b. True),
      Evaluate = (\<lambda>b. if moveNo b = 0 then 50 else - 50), see = (\<lambda>b m. 0),
      makeMove = (\<lambda>m b. b\<lparr>moveNo := moveNo b + 1, zobrist := zobrist b + 1\<rparr>),
      undoMove = (\<lambda>m b. b\<lparr>moveNo := moveNo b - 1, zobrist := zobrist b - 1\<rparr>),
      nullMove = (\<lambda>b. b), undoNullMove = (\<lambda>b. b),
      generateMoves = sample_moves, generateQuiesceMoves = sample_moves,
      movePromo = (\<lambda>m. if m = 9 then 8 else 0), moveCapture = (\<lambda>m. 1), moveEP = (\<lambda>m. 0),
      moveStart = (\<lambda>m. 0), moveEnd = (\<lambda>m. 0),
      PAWN = (\<lambda>s. s), QUEEN = (\<lambda>s. 8 + s), PIECE_TYPE = (\<lambda>p. p div 2),
      STATIC_MATERIAL_VALUE = (\<lambda>t. 100), NO_PIECE = 12,
      stop_input = (\<lambda>n. n \<ge> 2048), quit_input = (\<lambda>n. False)\<rparr>"

definition sample_data :: SearchData where
  "sample_data =
     \<lparr>sd_score = 0, sd_bestMove = 0, sd_board = sample_board, sd_ply = 0, sd_nodes = 0,
      sd_seldepth = 0, sd_skipMove = (\<lambda>_. 0), sd_evals = (\<lambda>_. 0), sd_moves = (\<lambda>_. 0),
      sd_killers = (\<lambda>_ _. 0), sd_counters = (\<lambda>_. 0), sd_hh = (\<lambda>_ _. 0),
      sd_bf = (\<lambda>_ _. 0)\<rparr>"

definition sample_params :: SearchParams where
  "sample_params =
     \<lparr>sp_startTime = 0, sp_endTime = 0, sp_depth = 1, sp_timeset = 0, sp_movesToGo = 0,
      sp_stopped = 0, sp_quit = 0\<rparr>"

definition sample_state :: search_state where
  "sample_state =
     \<lparr>st_params = sample_params, st_data = sample_data, st_tt = empty_table, st_out = []\<rparr>"

text \<open>The score of a call that returned.\<close>

definition score_of :: "result outcome \<Rightarrow> int option" where
  "score_of m = (case m of Ret (score, pv, st) \<Rightarrow> Some score | _ \<Rightarrow> None)"

definition state_of :: "result outcome \<Rightarrow> search_state option" where
  "state_of m = (case m of Ret (score, pv, st) \<Rightarrow> Some st | _ \<Rightarrow> None)"

text \<open>The sample state at node count \<open>nodes\<close> and ply \<open>ply\<close>.\<close>

definition sample_at :: "int \<Rightarrow> int \<Rightarrow> search_state" where
  "sample_at nodes ply =
     sample_state\<lparr>st_data := sample_data\<lparr>sd_nodes := nodes, sd_ply := ply\<rparr>\<rparr>"


subsection \<open>Notions used in the statements\<close>

text \<open>The position is not drawn by repetition, by material or by the 50-move rule.\<close>

definition not_drawn :: "env \<Rightarrow> Board \<Rightarrow> bool" where
  "not_drawn E b = (\<not> isRepetition E b \<and> \<not> isMaterialDraw E b \<and> \<not> halfMove b > 99)"

text \<open>Lines 128..129 and 333..334: the node is counted and \<open>seldepth\<close> raised.\<close>

definition counted :: "search_state \<Rightarrow> search_state" where
  "counted st =
     st\<lparr>st_data := (st_data st)\<lparr>sd_nodes := sd_nodes (st_data st) + 1,
          sd_seldepth := max (sd_ply (st_data st)) (sd_seldepth (st_data st))\<rparr>\<rparr>"










definition sample_qframe :: q_frame where
  "sample_qframe = \<lparr>qf_beta = 2000, qf_eval = 50\<rparr>"


text \<open>What one pass of a move loop leaves behind with respect to the stop flag: it leaves the
  frame with the score 0 and the flag set, or it goes on with the flag clear.\<close>

definition stop_checked :: "(result, 'v) flow \<Rightarrow> ('v \<Rightarrow> search_state) \<Rightarrow> bool" where
  "stop_checked fl st_of =
     (case fl of
        Leave (r, pv, st') \<Rightarrow> r = 0 \<and> stopped st'
      | Break V' \<Rightarrow> \<not> stopped (st_of V')
      | Next V' \<Rightarrow> \<not> stopped (st_of V'))"

text \<open>A move list none of whose entries is \<^verbatim>\<open>NULL_MOVE\<close>, the value that an unset
  \<^verbatim>\<open>skipMove\<close> has.\<close>

definition list_nonnull :: "MoveList \<Rightarrow> bool" where
  "list_nonnull moveList = (\<forall>i<ml_count moveList. ml_moves moveList i \<noteq> NULL_MOVE)"

definition moves_nonnull :: "env \<Rightarrow> bool" where
  "moves_nonnull E = (\<forall>d. list_nonnull (generateMoves E d))"

text \<open>The state of the loop variables of \<^verbatim>\<open>negamax\<close> after one pass that did not leave
  the frame.\<close>

definition after_search :: "(result, nm_vars) flow \<Rightarrow> nm_vars \<Rightarrow> bool" where
  "after_search fl V =
     (case fl of
        Leave x \<Rightarrow> True
      | Break V' \<Rightarrow> \<not> stopped (nv_st V') \<and> list_nonnull (nv_moveList V')
      | Next V' \<Rightarrow> \<not> stopped (nv_st V') \<and> list_nonnull (nv_moveList V') \<and> nv_i V' = nv_i V)"

text \<open>One pass of the move loop of \<^verbatim>\<open>quiesce\<close> leaves the transposition table as it was.\<close>

definition same_table :: "(result, q_vars) flow \<Rightarrow> tt_state \<Rightarrow> bool" where
  "same_table fl t =
     (case fl of
        Leave (r, pv, st') \<Rightarrow> st_tt st' = t
      | Break V' \<Rightarrow> st_tt (qv_st V') = t
      | Next V' \<Rightarrow> st_tt (qv_st V') = t)"

text \<open>The loop variables of a quiescence frame about to try its first capture, one node before the
  stop is polled.\<close>

definition sample_qvars :: q_vars where
  "sample_qvars =
     \<lparr>qv_i = 0, qv_moveList = sample_moves sample_data, qv_bestScore = 50, qv_alpha = 50,
      qv_pv = [], qv_childPv = [], qv_st = sample_at 2047 1\<rparr>"

text \<open>The position after the only move of the small game, entered with the stop flag already
  set.\<close>

definition stopped_leaf :: search_state where
  "stopped_leaf =
     (play sample_env 7 (sample_at 0 0))\<lparr>st_params := sample_params\<lparr>sp_stopped := 1\<rparr>\<rparr>"

subsection \<open>Notions for the bounds on the scores\<close>

text \<open>The stand-pat evaluation of a quiescence frame: the value of \<^verbatim>\<open>eval\<close> after lines 358..363,
  for a frame that is not drawn, is below the ply limit and takes no cutoff from the table.\<close>

definition stand_pat_eval :: "env \<Rightarrow> int \<Rightarrow> int \<Rightarrow> search_state \<Rightarrow> int option" where
  "stand_pat_eval E alpha beta st =
     (case quiesce_entry E st of
        Return r \<Rightarrow> None
      | Go st1 \<Rightarrow>
          (let ttValue = TTProbe (st_tt st1) (zobrist (sd_board (st_data st1)))
           in case tt_cutoff_quiesce E ttValue (sd_ply (st_data st1)) alpha beta of
                Some score \<Rightarrow> None
              | None \<Rightarrow> Some (fst (stand_pat E ttValue st1))))"

text \<open>One pass of the move loop of \<^verbatim>\<open>quiesce\<close> leaves with 0 and the stop flag set, or keeps
  the best score at or above \<open>e\<close>.\<close>

definition above_stand_pat :: "int \<Rightarrow> (result, q_vars) flow \<Rightarrow> bool" where
  "above_stand_pat e fl =
     (case fl of
        Leave (r, pv, st') \<Rightarrow> r = 0 \<and> stopped st'
      | Break V' \<Rightarrow> e \<le> qv_bestScore V'
      | Next V' \<Rightarrow> e \<le> qv_bestScore V')"

text \<open>An entry whose 16 score bits are not below \<^verbatim>\<open>-CHECKMATE\<close> and whose evaluation is no mate
  score. The empty entry is one, and so is every entry \<^verbatim>\<open>ttPut\<close> writes for a score of at least
  \<^verbatim>\<open>-CHECKMATE + ply\<close>.\<close>

definition good_entry :: "env \<Rightarrow> TTValue \<Rightarrow> bool" where
  "good_entry E v =
     (- CHECKMATE \<le> TTScoreBits v \<and> (v \<noteq> 0 \<longrightarrow> \<bar>TTEval (macros E) v\<bar> \<le> MATE_BOUND))"

text \<open>A table of the size \<^verbatim>\<open>TTInit\<close> gives it, all of whose entry words are such entries.\<close>

definition good_table :: "env \<Rightarrow> tt_state \<Rightarrow> bool" where
  "good_table E t =
     (tt_sized t
      \<and> (\<forall>k. 2 * k + 1 < SIZE t div sizeof_TTValue
             \<longrightarrow> good_entry E (TRANSPOSITION_ENTRIES t (2 * k + 1))))"

text \<open>The states the search runs in: such a table, recorded evaluations that are no mate scores,
  and a ply between 0 and \<^verbatim>\<open>MAX_DEPTH\<close>.\<close>

definition good_state :: "env \<Rightarrow> search_state \<Rightarrow> bool" where
  "good_state E st =
     (good_table E (st_tt st) \<and> (\<forall>i. \<bar>sd_evals (st_data st) i\<bar> \<le> MATE_BOUND)
      \<and> 0 \<le> sd_ply (st_data st) \<and> sd_ply (st_data st) \<le> MAX_DEPTH E)"

text \<open>What the search takes from its collaborators: a static evaluation that is no mate score, a
  ply limit that keeps mate scores apart from evaluations, and move lists without
  \<^verbatim>\<open>NULL_MOVE\<close>.\<close>

definition good_env :: "env \<Rightarrow> bool" where
  "good_env E =
     ((\<forall>b. \<bar>Evaluate E b\<bar> \<le> MATE_BOUND) \<and> 1 \<le> MAX_DEPTH E
      \<and> MAX_DEPTH E \<le> CHECKMATE - MATE_BOUND \<and> moves_nonnull E)"

text \<open>The windows \<^verbatim>\<open>negamax\<close> is called with: those of \<^verbatim>\<open>Search\<close> at the root, and below the root
  an \<^verbatim>\<open>alpha\<close> that is no better than the fastest mate from this ply.\<close>

definition window_ok :: "int \<Rightarrow> int \<Rightarrow> int \<Rightarrow> bool" where
  "window_ok ply alpha beta =
     (if ply = 0 then - CHECKMATE \<le> alpha \<and> alpha < beta \<and> beta \<le> CHECKMATE
      else alpha \<le> CHECKMATE - ply)"

text \<open>At the root the window lies within the mate scores, as in \<^verbatim>\<open>Search\<close>.\<close>

definition root_window :: "int \<Rightarrow> int \<Rightarrow> int \<Rightarrow> bool" where
  "root_window ply alpha beta =
     (ply = 0 \<longrightarrow> - CHECKMATE \<le> alpha \<and> alpha < beta \<and> beta \<le> CHECKMATE)"

text \<open>A score between being mated at this ply and mating at this ply.\<close>

definition in_range :: "int \<Rightarrow> int \<Rightarrow> bool" where
  "in_range ply r = (- CHECKMATE + ply \<le> r \<and> r \<le> CHECKMATE - ply)"

text \<open>What a call leaves as it found it: the ply, the \<^verbatim>\<open>skipMove\<close> slots up to its own ply, and a
  cleared slot of the next ply.\<close>

definition kept :: "search_state \<Rightarrow> search_state \<Rightarrow> bool" where
  "kept st st' =
     (sd_ply (st_data st') = sd_ply (st_data st)
      \<and> (\<forall>q. q \<le> sd_ply (st_data st) \<longrightarrow> sd_skipMove (st_data st') q = sd_skipMove (st_data st) q)
      \<and> (sd_skipMove (st_data st) (sd_ply (st_data st) + 1) = 0
           \<longrightarrow> sd_skipMove (st_data st') (sd_ply (st_data st) + 1) = 0))"

text \<open>The contract of a call of \<^verbatim>\<open>negamax\<close>, and of a call of \<^verbatim>\<open>quiesce\<close>.\<close>

definition search_ok :: "env \<Rightarrow> search_fn \<Rightarrow> bool" where
  "search_ok E rec =
     (\<forall>a b d st r pv st'.
        good_state E st \<and> window_ok (sd_ply (st_data st)) a b \<and> rec a b d st = Ret (r, pv, st')
        \<longrightarrow> good_state E st' \<and> kept st st'
            \<and> (sd_skipMove (st_data st) (sd_ply (st_data st)) = 0
                 \<longrightarrow> in_range (sd_ply (st_data st)) r))"

definition qsearch_ok :: "env \<Rightarrow> qsearch_fn \<Rightarrow> bool" where
  "qsearch_ok E recq =
     (\<forall>a b st r pv st'.
        good_state E st \<and> recq a b st = Ret (r, pv, st')
        \<longrightarrow> good_state E st' \<and> kept st st' \<and> in_range (sd_ply (st_data st)) r)"

text \<open>The invariant of the move loop of \<^verbatim>\<open>quiesce\<close> and what one pass establishes.\<close>

definition q_inv :: "env \<Rightarrow> search_state \<Rightarrow> q_vars \<Rightarrow> bool" where
  "q_inv E st0 V =
     (good_state E (qv_st V) \<and> kept st0 (qv_st V)
      \<and> in_range (sd_ply (st_data st0)) (qv_bestScore V)
      \<and> sd_ply (st_data st0) + 1 \<le> MAX_DEPTH E)"

definition q_post :: "env \<Rightarrow> search_state \<Rightarrow> (result, q_vars) flow \<Rightarrow> bool" where
  "q_post E st0 fl =
     (case fl of
        Leave (r, pv, st') \<Rightarrow>
          good_state E st' \<and> kept st0 st' \<and> in_range (sd_ply (st_data st0)) r
      | Break V' \<Rightarrow> q_inv E st0 V'
      | Next V' \<Rightarrow> q_inv E st0 V')"

text \<open>The invariant of the move loop of \<^verbatim>\<open>negamax\<close>. The best score is either in range for a
  child, or still \<^verbatim>\<open>-CHECKMATE\<close>; outside a singular search that is so only before the first
  move (\<open>best_ok\<close>) and never after a pass that went on (\<open>best_done\<close>).\<close>

definition loop_inv :: "env \<Rightarrow> search_state \<Rightarrow> nm_frame \<Rightarrow> nm_vars \<Rightarrow> bool" where
  "loop_inv E st0 F V =
     (good_state E (nv_st V) \<and> kept st0 (nv_st V)
      \<and> sd_skipMove (st_data (nv_st V)) (sd_ply (st_data st0) + 1) = 0
      \<and> sd_ply (st_data st0) + 1 \<le> MAX_DEPTH E
      \<and> nf_skipMove F = sd_skipMove (st_data st0) (sd_ply (st_data st0))
      \<and> nf_isRoot F = (sd_ply (st_data st0) = 0)
      \<and> - CHECKMATE + sd_ply (st_data st0) \<le> nv_alpha V \<and> nv_alpha V < nf_beta F
      \<and> nf_beta F \<le> CHECKMATE - sd_ply (st_data st0)
      \<and> 0 \<le> nv_numMoves V \<and> list_nonnull (nv_moveList V))"

definition best_ok :: "search_state \<Rightarrow> nm_frame \<Rightarrow> nm_vars \<Rightarrow> bool" where
  "best_ok st0 F V =
     (in_range (sd_ply (st_data st0) + 1) (nv_bestScore V)
      \<or> (nv_bestScore V = - CHECKMATE \<and> (nf_skipMove F = 0 \<longrightarrow> nv_i V = 0)))"

definition best_done :: "search_state \<Rightarrow> nm_frame \<Rightarrow> nm_vars \<Rightarrow> bool" where
  "best_done st0 F V =
     (in_range (sd_ply (st_data st0) + 1) (nv_bestScore V)
      \<or> (nv_bestScore V = - CHECKMATE \<and> nf_skipMove F \<noteq> 0))"

text \<open>What a frame, a pass of the loop and the loop establish.\<close>

definition frame_post :: "env \<Rightarrow> search_state \<Rightarrow> result \<Rightarrow> bool" where
  "frame_post E st0 res =
     (case res of (r, pv, st') \<Rightarrow>
        good_state E st' \<and> kept st0 st'
        \<and> (sd_skipMove (st_data st0) (sd_ply (st_data st0)) = 0
             \<longrightarrow> in_range (sd_ply (st_data st0)) r))"

definition iter_post :: "env \<Rightarrow> search_state \<Rightarrow> nm_frame \<Rightarrow> (result, nm_vars) flow \<Rightarrow> bool" where
  "iter_post E st0 F fl =
     (case fl of
        Leave res \<Rightarrow> frame_post E st0 res
      | Break V' \<Rightarrow> good_state E (nv_st V') \<and> kept st0 (nv_st V') \<and> best_done st0 F V'
      | Next V' \<Rightarrow> loop_inv E st0 F V' \<and> best_done st0 F V')"

definition loop_post :: "env \<Rightarrow> search_state \<Rightarrow> nm_frame \<Rightarrow> (result, nm_vars) flow \<Rightarrow> bool" where
  "loop_post E st0 F fl =
     (case fl of
        Leave res \<Rightarrow> frame_post E st0 res
      | Break V' \<Rightarrow> good_state E (nv_st V') \<and> kept st0 (nv_st V') \<and> best_done st0 F V'
      | Next V' \<Rightarrow> good_state E (nv_st V') \<and> kept st0 (nv_st V')
          \<and> (ml_count (nv_moveList V') = 0 \<or> best_done st0 F V'))"

text \<open>A frame of the singular search at ply 1 of the small game: the one move is the move to
  skip.\<close>

definition skip_frame :: search_state where
  "skip_frame =
     sample_state\<lparr>st_data := sample_data\<lparr>sd_ply := 1, sd_skipMove := (\<lambda>_. 0)(1 := 7)\<rparr>\<rparr>"

section \<open>Properties of the transposition table\<close>

subsection \<open>The scan of a bucket\<close>

lemma TTPut_scan_end:
  "\<not> i < idx + BUCKET_SIZE * 2 \<Longrightarrow>
   TTPut_scan M E hash depth flag idx i rd ri = Replace ri"
  by (subst TTPut_scan.simps) simp

lemma TTPut_scan_step:
  "i < idx + BUCKET_SIZE * 2 \<Longrightarrow>
   TTPut_scan M E hash depth flag idx i rd ri =
     (if E i = 0 then Replace i
      else if E i = hash then
        (if sint (TTDepth M (E (i + 1))) > depth \<and> flag \<noteq> TT_EXACT then Abort (E (i + 1))
         else Replace i)
      else if sint (TTDepth M (E (i + 1))) < rd then
        TTPut_scan M E hash depth flag idx (i + 2) (sint (TTDepth M (E (i + 1)))) i
      else TTPut_scan M E hash depth flag idx (i + 2) rd ri)"
  by (subst TTPut_scan.simps) (simp add: Let_def)

lemma sint32_le_INT32_MAX: "sint (w :: 32 word) \<le> INT32_MAX"
  using sint_lt [of w] by (simp add: INT32_MAX_def)

lemma TTPut_scan_bucket:
  "TTPut_scan M E hash depth flag idx idx INT32_MAX idx =
     (if E idx = 0 then Replace idx
      else if E idx = hash then
        (if sint (TTDepth M (E (idx + 1))) > depth \<and> flag \<noteq> TT_EXACT then Abort (E (idx + 1))
         else Replace idx)
      else if E (idx + 2) = 0 then Replace (idx + 2)
      else if E (idx + 2) = hash then
        (if sint (TTDepth M (E (idx + 3))) > depth \<and> flag \<noteq> TT_EXACT then Abort (E (idx + 3))
         else Replace (idx + 2))
      else if sint (TTDepth M (E (idx + 3))) < sint (TTDepth M (E (idx + 1))) then Replace (idx + 2)
      else Replace idx)"
proof -
  have a: "idx < idx + BUCKET_SIZE * 2" "idx + 2 < idx + BUCKET_SIZE * 2"
    "\<not> idx + 2 + 2 < idx + BUCKET_SIZE * 2"
    by (simp_all add: BUCKET_SIZE_def)
  note s = TTPut_scan_step [OF a(1)] TTPut_scan_step [OF a(2)] TTPut_scan_end [OF a(3)]
  have e: "idx + 2 + 1 = idx + 3" by simp
  show ?thesis
    unfolding s e
    using sint32_le_INT32_MAX [of "TTDepth M (E (idx + 1))"]
    by auto
qed

lemma less_BUCKET_SIZE: "k < BUCKET_SIZE \<longleftrightarrow> k = 0 \<or> k = Suc 0"
  by (auto simp: BUCKET_SIZE_def)

lemma all_less_BUCKET_SIZE: "(\<forall>k<BUCKET_SIZE. P k) \<longleftrightarrow> P 0 \<and> P (Suc 0)"
  by (auto simp: less_BUCKET_SIZE)

lemma ex_less_BUCKET_SIZE: "(\<exists>k<BUCKET_SIZE. P k) \<longleftrightarrow> P 0 \<or> P (Suc 0)"
  by (auto simp: less_BUCKET_SIZE)

lemma slot_simps:
  "slot_key E idx 0 = E idx" "slot_key E idx (Suc 0) = E (idx + 2)"
  "slot_val E idx 0 = E (idx + 1)" "slot_val E idx (Suc 0) = E (idx + 3)"
  by (simp_all add: slot_key_def slot_val_def eval_nat_numeral)

lemma TTPut_scan_empty:
  assumes "k < BUCKET_SIZE" and "slot_key E idx k = 0"
    and "\<forall>j<k. slot_key E idx j \<noteq> 0 \<and> slot_key E idx j \<noteq> hash"
  shows "TTPut_scan M E hash depth flag idx idx INT32_MAX idx = Replace (idx + 2 * k)"
proof -
  consider "k = 0" | "k = Suc 0"
    using assms(1) by (auto simp: less_BUCKET_SIZE)
  then show ?thesis
  proof cases
    case 1
    with assms(2) show ?thesis
      by (simp add: TTPut_scan_bucket slot_simps)
  next
    case 2
    with assms(2,3) show ?thesis
      by (simp add: TTPut_scan_bucket slot_simps)
  qed
qed

lemma TTPut_scan_match:
  assumes "k < BUCKET_SIZE" and "slot_key E idx k = hash" and "hash \<noteq> 0"
    and "\<forall>j<k. slot_key E idx j \<noteq> 0 \<and> slot_key E idx j \<noteq> hash"
  shows "TTPut_scan M E hash depth flag idx idx INT32_MAX idx =
     (if slot_depth M E idx k > depth \<and> flag \<noteq> TT_EXACT
      then Abort (slot_val E idx k) else Replace (idx + 2 * k))"
proof -
  consider "k = 0" | "k = Suc 0"
    using assms(1) by (auto simp: less_BUCKET_SIZE)
  then show ?thesis
  proof cases
    case 1
    with assms(2,3) show ?thesis
      by (simp add: TTPut_scan_bucket slot_simps slot_depth_def)
  next
    case 2
    with assms(2,3,4) show ?thesis
      by (simp add: TTPut_scan_bucket slot_simps slot_depth_def)
  qed
qed

lemma TTPut_scan_evict:
  assumes "\<forall>k<BUCKET_SIZE. slot_key E idx k \<noteq> 0 \<and> slot_key E idx k \<noteq> hash"
  shows "\<exists>k<BUCKET_SIZE. TTPut_scan M E hash depth flag idx idx INT32_MAX idx = Replace (idx + 2 * k)
      \<and> (\<forall>j<BUCKET_SIZE. slot_depth M E idx k \<le> slot_depth M E idx j)
      \<and> (\<forall>j<k. slot_depth M E idx k < slot_depth M E idx j)"
proof -
  have keys: "E idx \<noteq> 0" "E idx \<noteq> hash" "E (idx + 2) \<noteq> 0" "E (idx + 2) \<noteq> hash"
    using assms by (simp_all add: all_less_BUCKET_SIZE slot_simps)
  show ?thesis
  proof (cases "slot_depth M E idx (Suc 0) < slot_depth M E idx 0")
    case True
    then show ?thesis
      using keys by (simp add: ex_less_BUCKET_SIZE all_less_BUCKET_SIZE TTPut_scan_bucket
          slot_simps slot_depth_def)
  next
    case False
    then show ?thesis
      using keys by (simp add: ex_less_BUCKET_SIZE all_less_BUCKET_SIZE TTPut_scan_bucket
          slot_simps slot_depth_def)
  qed
qed

lemma TTPut_Abort:
  "TTPut_scan M (TRANSPOSITION_ENTRIES s) hash depth flag (TTIdx s hash) (TTIdx s hash)
     INT32_MAX (TTIdx s hash) = Abort v \<Longrightarrow>
   TTPut M s hash depth score flag move ply eval = Inr (v, s)"
  by (simp add: TTPut_def Let_def)

lemma TTPut_Replace:
  "TTPut_scan M (TRANSPOSITION_ENTRIES s) hash depth flag (TTIdx s hash) (TTIdx s hash)
     INT32_MAX (TTIdx s hash) = Replace r \<Longrightarrow>
   TTPut M s hash depth score flag move ply eval = Inr (tt, s') \<Longrightarrow>
   tt = TTEntry M (adjustScore score ply) flag depth move eval
   \<and> s' = s\<lparr>TRANSPOSITION_ENTRIES := (TRANSPOSITION_ENTRIES s)(r := hash, r + 1 := tt)\<rparr>"
  by (auto simp: TTPut_def Let_def split: if_splits)

lemma TTPut_Replace_eq:
  assumes "TTPut_scan M (TRANSPOSITION_ENTRIES s) hash depth flag (TTIdx s hash) (TTIdx s hash)
     INT32_MAX (TTIdx s hash) = Replace r"
  shows "TTPut M s hash depth score flag move ply eval =
     (if TTPut_asserts M depth score flag move ply eval
      then Inr (TTEntry M (adjustScore score ply) flag depth move eval,
                s\<lparr>TRANSPOSITION_ENTRIES := (TRANSPOSITION_ENTRIES s)
                    (r := hash, r + 1 := TTEntry M (adjustScore score ply) flag depth move eval)\<rparr>)
      else Inl AssertionFailed)"
  using assms by (auto simp: TTPut_def TTPut_asserts_def Let_def)

lemmas sample_eval = sample_macros_def flag_code_def TTIdx_def BUCKET_SIZE_def slot_key_def
  slot_val_def slot_depth_def one_entry_def two_entries_def

lemmas put_eval = TTPut_def TTScore_def TTScoreBits_def adjustScore_def
  MATE_BOUND_def INT16_MAX_def INT16_MIN_def Let_def

lemmas run_eval = full_bucket_ops_def tt_boot_def TTInit_def TTClear_def ilog2.simps
  sizeof_TTValue_def NO_ENTRY_def

text \<open>
  C1. The slot chosen by \<open>TTPut\<close>. With \<open>chosen\<close> the result of the scan of lines 84..108
  on the bucket of \<open>hash\<close>:
  \<^item> if slot \<open>k\<close> is empty and no earlier slot is empty or holds \<open>hash\<close>, slot \<open>k\<close> is chosen;
  \<^item> if slot \<open>k\<close> holds \<open>hash\<close> and no earlier slot is empty or holds \<open>hash\<close>, slot \<open>k\<close> is
    chosen, except that the write is given up and the stored entry returned when its depth
    is greater than the incoming depth and the incoming bound is not \<open>TT_EXACT\<close>;
  \<^item> if no slot is empty or holds \<open>hash\<close>, the chosen slot is the first one of lowest stored
    depth;
  \<^item> when the write is given up, \<open>TTPut\<close> returns the stored entry and leaves the table as it
    was; otherwise \<open>TTPut\<close> returns exactly when its assertions hold, with the packed entry
    and the table in which the key and the entry are written to the chosen slot and nothing
    else is changed.
\<close>

theorem TTPut_slot_choice:
  fixes s :: tt_state
  defines "E \<equiv> TRANSPOSITION_ENTRIES s"
  shows
  "(let idx = TTIdx s hash;
        chosen = TTPut_scan M E hash depth flag idx idx INT32_MAX idx
    in (\<forall>k<BUCKET_SIZE.
          slot_key E idx k = 0 \<and> (\<forall>j<k. slot_key E idx j \<noteq> 0 \<and> slot_key E idx j \<noteq> hash)
          \<longrightarrow> chosen = Replace (idx + 2 * k))
     \<and> (\<forall>k<BUCKET_SIZE.
          slot_key E idx k = hash \<and> hash \<noteq> 0
          \<and> (\<forall>j<k. slot_key E idx j \<noteq> 0 \<and> slot_key E idx j \<noteq> hash)
          \<longrightarrow> chosen = (if slot_depth M E idx k > depth \<and> flag \<noteq> TT_EXACT
                        then Abort (slot_val E idx k) else Replace (idx + 2 * k)))
     \<and> ((\<forall>k<BUCKET_SIZE. slot_key E idx k \<noteq> 0 \<and> slot_key E idx k \<noteq> hash)
          \<longrightarrow> (\<exists>k<BUCKET_SIZE. chosen = Replace (idx + 2 * k)
                 \<and> (\<forall>j<BUCKET_SIZE. slot_depth M E idx k \<le> slot_depth M E idx j)
                 \<and> (\<forall>j<k. slot_depth M E idx k < slot_depth M E idx j)))
     \<and> (\<forall>v. chosen = Abort v
          \<longrightarrow> TTPut M s hash depth score flag move ply eval = Inr (v, s))
     \<and> (\<forall>r. chosen = Replace r
          \<longrightarrow> TTPut M s hash depth score flag move ply eval =
                (if TTPut_asserts M depth score flag move ply eval
                 then Inr (TTEntry M (adjustScore score ply) flag depth move eval,
                           s\<lparr>TRANSPOSITION_ENTRIES :=
                               E(r := hash,
                                 r + 1 := TTEntry M (adjustScore score ply) flag depth move eval)\<rparr>)
                 else Inl AssertionFailed)))"
  unfolding Let_def E_def
proof (intro conjI allI impI, goal_cases)
  case (1 k)
  then show ?case by (elim conjE) (rule TTPut_scan_empty)
next
  case (2 k)
  then show ?case by (elim conjE) (rule TTPut_scan_match)
next
  case 3
  then show ?case by (rule TTPut_scan_evict)
next
  case (4 v)
  then show ?case by (rule TTPut_Abort)
next
  case (5 r)
  then show ?case by (rule TTPut_Replace_eq)
qed
text \<open>
  The three branches on concrete buckets, with the table \<open>TTPut\<close> returns: the entry is
  written to the empty second slot; a matching deeper entry stops a \<open>TT_LOWER\<close> write and is
  returned, but is overwritten by a \<open>TT_EXACT\<close> one; and in a full bucket the second slot, of
  depth 2 against 5, is evicted.
\<close>

theorem TTPut_slot_choice_witness:
  "TTPut sample_macros one_entry 65536 3 7 TT_LOWER 1 0 0
     = Inr (TTEntry sample_macros 7 TT_LOWER 3 1 0,
            one_entry\<lparr>TRANSPOSITION_ENTRIES := (TRANSPOSITION_ENTRIES one_entry)
              (2 := 65536, 3 := TTEntry sample_macros 7 TT_LOWER 3 1 0)\<rparr>)
   \<and> TTPut sample_macros one_entry 32768 3 7 TT_LOWER 1 0 0
     = Inr (TTEntry sample_macros 10 TT_EXACT 5 1 0, one_entry)
   \<and> TTPut sample_macros one_entry 32768 3 7 TT_EXACT 1 0 0
     = Inr (TTEntry sample_macros 7 TT_EXACT 3 1 0,
            one_entry\<lparr>TRANSPOSITION_ENTRIES := (TRANSPOSITION_ENTRIES one_entry)
              (0 := 32768, 1 := TTEntry sample_macros 7 TT_EXACT 3 1 0)\<rparr>)
   \<and> TTPut sample_macros two_entries 98304 9 7 TT_EXACT 1 0 0
     = Inr (TTEntry sample_macros 7 TT_EXACT 9 1 0,
            two_entries\<lparr>TRANSPOSITION_ENTRIES := (TRANSPOSITION_ENTRIES two_entries)
              (2 := 98304, 3 := TTEntry sample_macros 7 TT_EXACT 9 1 0)\<rparr>)
   \<and> slot_depth sample_macros (TRANSPOSITION_ENTRIES two_entries) 0 0 = 5
   \<and> slot_depth sample_macros (TRANSPOSITION_ENTRIES two_entries) 0 1 = 2"
proof -
  note T1 = TTPut_slot_choice [of one_entry 65536 sample_macros 3 TT_LOWER 7 1 0 0, unfolded Let_def]
  note T2 = TTPut_slot_choice [of one_entry 32768 sample_macros 3 TT_LOWER 7 1 0 0, unfolded Let_def]
  note T3 = TTPut_slot_choice [of one_entry 32768 sample_macros 3 TT_EXACT 7 1 0 0, unfolded Let_def]
  note T4 = TTPut_slot_choice [of two_entries 98304 sample_macros 9 TT_EXACT 7 1 0 0, unfolded Let_def]
  have a: "TTPut_scan sample_macros (TRANSPOSITION_ENTRIES one_entry) 65536 3 TT_LOWER 0 0 INT32_MAX 0
     = Replace 2"
    using T1 [THEN conjunct1, THEN spec, of 1] by (simp add: sample_eval)
  have b: "TTPut_scan sample_macros (TRANSPOSITION_ENTRIES one_entry) 32768 3 TT_LOWER 0 0 INT32_MAX 0
     = Abort (TTEntry sample_macros 10 TT_EXACT 5 1 0)"
    using T2 [THEN conjunct2, THEN conjunct1, THEN spec, of 0] by (simp add: sample_eval)
  have c: "TTPut_scan sample_macros (TRANSPOSITION_ENTRIES one_entry) 32768 3 TT_EXACT 0 0 INT32_MAX 0
     = Replace 0"
    using T3 [THEN conjunct2, THEN conjunct1, THEN spec, of 0] by (simp add: sample_eval)
  have d: "TTPut_scan sample_macros (TRANSPOSITION_ENTRIES two_entries) 98304 9 TT_EXACT 0 0 INT32_MAX 0
     = Replace 2"
    using T4 [THEN conjunct2, THEN conjunct2, THEN conjunct1,
        unfolded all_less_BUCKET_SIZE ex_less_BUCKET_SIZE]
    by (simp add: sample_eval)
  have ok: "TTPut_asserts sample_macros 3 7 TT_LOWER 1 0 0"
    "TTPut_asserts sample_macros 3 7 TT_EXACT 1 0 0"
    "TTPut_asserts sample_macros 9 7 TT_EXACT 1 0 0"
    by (simp_all add: TTPut_asserts_def put_eval sample_eval)
  have adj: "adjustScore 7 0 = 7"
    by (simp add: adjustScore_def MATE_BOUND_def)
  have idx: "TTIdx one_entry 65536 = 0" "TTIdx one_entry 32768 = 0" "TTIdx two_entries 98304 = 0"
    by (simp_all add: sample_eval)
  have e: "TTPut sample_macros one_entry 32768 3 7 TT_LOWER 1 0 0
     = Inr (TTEntry sample_macros 10 TT_EXACT 5 1 0, one_entry)"
    using T2 [THEN conjunct2, THEN conjunct2, THEN conjunct2, THEN conjunct1, THEN spec,
        of "TTEntry sample_macros 10 TT_EXACT 5 1 0"] b
    by (simp add: sample_eval)
  have f: "TTPut sample_macros one_entry 65536 3 7 TT_LOWER 1 0 0
     = Inr (TTEntry sample_macros 7 TT_LOWER 3 1 0,
            one_entry\<lparr>TRANSPOSITION_ENTRIES := (TRANSPOSITION_ENTRIES one_entry)
              (2 := 65536, 3 := TTEntry sample_macros 7 TT_LOWER 3 1 0)\<rparr>)"
    using T1 [THEN conjunct2, THEN conjunct2, THEN conjunct2, THEN conjunct2, THEN spec, of 2]
      a ok(1) adj idx(1)
    by simp
  have g: "TTPut sample_macros one_entry 32768 3 7 TT_EXACT 1 0 0
     = Inr (TTEntry sample_macros 7 TT_EXACT 3 1 0,
            one_entry\<lparr>TRANSPOSITION_ENTRIES := (TRANSPOSITION_ENTRIES one_entry)
              (0 := 32768, 1 := TTEntry sample_macros 7 TT_EXACT 3 1 0)\<rparr>)"
    using T3 [THEN conjunct2, THEN conjunct2, THEN conjunct2, THEN conjunct2, THEN spec, of 0]
      c ok(2) adj idx(2)
    by simp
  have h: "TTPut sample_macros two_entries 98304 9 7 TT_EXACT 1 0 0
     = Inr (TTEntry sample_macros 7 TT_EXACT 9 1 0,
            two_entries\<lparr>TRANSPOSITION_ENTRIES := (TRANSPOSITION_ENTRIES two_entries)
              (2 := 98304, 3 := TTEntry sample_macros 7 TT_EXACT 9 1 0)\<rparr>)"
    using T4 [THEN conjunct2, THEN conjunct2, THEN conjunct2, THEN conjunct2, THEN spec, of 2]
      d ok(3) adj idx(3)
    by simp
  have k: "slot_depth sample_macros (TRANSPOSITION_ENTRIES two_entries) 0 0 = 5"
    "slot_depth sample_macros (TRANSPOSITION_ENTRIES two_entries) 0 1 = 2"
    by (simp_all add: sample_eval)
  from e f g h k show ?thesis by simp
qed

subsection \<open>Mate scores\<close>

lemma TTScore_adjustScore:
  assumes "0 \<le> ply" and "TTScoreBits v = adjustScore score ply"
  shows "TTScore v ply = score"
  using assms by (auto simp: TTScore_def adjustScore_def Let_def MATE_BOUND_def split: if_splits)

lemma TTPut_stored:
  assumes "TTPut_scan M (TRANSPOSITION_ENTRIES s) hash depth flag (TTIdx s hash) (TTIdx s hash)
         INT32_MAX (TTIdx s hash) = Replace r"
    and "TTPut M s hash depth score flag move ply eval = Inr (tt, s')"
  shows "TRANSPOSITION_ENTRIES s' (r + 1) = tt
       \<and> tt = TTEntry M (adjustScore score ply) flag depth move eval
       \<and> INT16_MIN \<le> adjustScore score ply \<and> adjustScore score ply \<le> INT16_MAX
       \<and> TTScore tt ply = score"
  using assms by (auto simp: TTPut_def Let_def split: if_splits)

text \<open>
  C2. The mate adjustment on store and on read. A returning \<open>TTPut\<close> that writes stores
  \<open>TTEntry\<close> of the adjusted score, which is \<open>score + ply\<close> above \<open>MATE_BOUND\<close>,
  \<open>score - ply\<close> below \<open>- MATE_BOUND\<close> and \<open>score\<close> otherwise; the adjusted score then lies in
  the \<open>int16_t\<close> range and \<open>TTScore\<close> at the same ply gives back \<open>score\<close>. For every entry
  whose score field holds the adjusted score, \<open>TTScore\<close> at the same ply \<open>ply \<ge> 0\<close> returns
  \<open>score\<close>; and a score within \<open>MATE_BOUND\<close> is returned as stored, at any ply.
\<close>

theorem mate_adjust_symmetric:
  "(\<forall>r tt s'.
       TTPut_scan M (TRANSPOSITION_ENTRIES s) hash depth flag (TTIdx s hash) (TTIdx s hash)
         INT32_MAX (TTIdx s hash) = Replace r
       \<and> TTPut M s hash depth score flag move ply eval = Inr (tt, s')
     \<longrightarrow> TRANSPOSITION_ENTRIES s' (r + 1) = tt
       \<and> tt = TTEntry M (adjustScore score ply) flag depth move eval
       \<and> INT16_MIN \<le> adjustScore score ply \<and> adjustScore score ply \<le> INT16_MAX
       \<and> TTScore tt ply = score)
   \<and> adjustScore score ply =
       (if score > MATE_BOUND then score + ply
        else if score < - MATE_BOUND then score - ply else score)
   \<and> (\<forall>v. 0 \<le> ply \<and> TTScoreBits v = adjustScore score ply \<longrightarrow> TTScore v ply = score)
   \<and> (\<forall>v. \<bar>score\<bar> \<le> MATE_BOUND \<and> TTScoreBits v = score \<longrightarrow> TTScore v ply = score)"
proof (intro conjI allI impI, goal_cases)
  case (1 r tt s')
  then show ?case using TTPut_stored by blast
next
  case (2 r tt s')
  then show ?case using TTPut_stored by blast
next
  case (3 r tt s')
  then show ?case using TTPut_stored by blast
next
  case (4 r tt s')
  then show ?case using TTPut_stored by blast
next
  case (5 r tt s')
  then show ?case using TTPut_stored by blast
next
  case 6
  then show ?case by (simp add: adjustScore_def)
next
  case (7 v)
  then show ?case by (simp add: TTScore_adjustScore)
next
  case (8 v)
  then show ?case by (auto simp: TTScore_def Let_def MATE_BOUND_def)
qed

lemma scan_one_entry:
  "TTPut_scan sample_macros (TRANSPOSITION_ENTRIES one_entry) 65536 3 flag 0 0 INT32_MAX 0
     = Replace 2"
  by (simp add: TTPut_scan_bucket sample_eval)

text \<open>A mate score stored at ply 3 and read back at ply 3, a losing one, and an ordinary one.\<close>

theorem mate_adjust_symmetric_witness:
  "TTPut sample_macros one_entry 65536 3 30001 TT_LOWER 1 3 0
     = Inr (TTEntry sample_macros 30004 TT_LOWER 3 1 0,
            one_entry\<lparr>TRANSPOSITION_ENTRIES := (TRANSPOSITION_ENTRIES one_entry)
              (2 := 65536, 3 := TTEntry sample_macros 30004 TT_LOWER 3 1 0)\<rparr>)
   \<and> TTScoreBits (TTEntry sample_macros 30004 TT_LOWER 3 1 0) = 30004
   \<and> TTScore (TTEntry sample_macros 30004 TT_LOWER 3 1 0) 3 = 30001
   \<and> TTScore (TTEntry sample_macros (- 30004) TT_LOWER 3 1 0) 3 = - 30001
   \<and> TTScore (TTEntry sample_macros 250 TT_LOWER 3 1 0) 3 = 250"
proof -
  have idx: "TTIdx one_entry 65536 = 0"
    by (simp add: sample_eval)
  have put: "TTPut sample_macros one_entry 65536 3 30001 TT_LOWER 1 3 0
     = Inr (TTEntry sample_macros 30004 TT_LOWER 3 1 0,
            one_entry\<lparr>TRANSPOSITION_ENTRIES := (TRANSPOSITION_ENTRIES one_entry)
              (2 := 65536, 3 := TTEntry sample_macros 30004 TT_LOWER 3 1 0)\<rparr>)"
    using scan_one_entry [of TT_LOWER] by (simp add: put_eval sample_eval)
  have scan: "TTPut_scan sample_macros (TRANSPOSITION_ENTRIES one_entry) 65536 3 TT_LOWER
      (TTIdx one_entry 65536) (TTIdx one_entry 65536) INT32_MAX (TTIdx one_entry 65536) = Replace 2"
    unfolding idx by (rule scan_one_entry)
  have bits: "TTScoreBits (TTEntry sample_macros 30004 TT_LOWER 3 1 0) = 30004"
    "TTScoreBits (TTEntry sample_macros (- 30004) TT_LOWER 3 1 0) = - 30004"
    "TTScoreBits (TTEntry sample_macros 250 TT_LOWER 3 1 0) = 250"
    by (simp_all add: TTScoreBits_def sample_eval)
  note T = mate_adjust_symmetric [of sample_macros one_entry 65536 3 TT_LOWER 30001 1 3 0]
  have a: "TTScore (TTEntry sample_macros 30004 TT_LOWER 3 1 0) 3 = 30001"
    using T [THEN conjunct1, THEN spec, THEN spec, THEN spec, THEN mp, OF conjI, OF scan put]
    by (simp add: adjustScore_def MATE_BOUND_def)
  have b: "TTScore (TTEntry sample_macros (- 30004) TT_LOWER 3 1 0) 3 = - 30001"
    using mate_adjust_symmetric [of sample_macros one_entry 65536 3 TT_LOWER "- 30001" 1 3 0,
        THEN conjunct2, THEN conjunct2, THEN conjunct1, THEN spec,
        of "TTEntry sample_macros (- 30004) TT_LOWER 3 1 0"] bits(2)
    by (simp add: adjustScore_def MATE_BOUND_def)
  have c: "TTScore (TTEntry sample_macros 250 TT_LOWER 3 1 0) 3 = 250"
    using mate_adjust_symmetric [of sample_macros one_entry 65536 3 TT_LOWER 250 1 3 0,
        THEN conjunct2, THEN conjunct2, THEN conjunct2, THEN spec,
        of "TTEntry sample_macros 250 TT_LOWER 3 1 0"] bits(3)
    by (simp add: MATE_BOUND_def)
  from put bits(1) a b c show ?thesis by simp
qed

text \<open>
  Without the range condition the round trip fails: for \<open>score = CHECKMATE\<close> at ply 1 the
  adjusted score is 32768, \<open>TTPut\<close> stops at its assertion, and the 16-bit score field would
  read back as \<open>- 32767\<close>.
\<close>

theorem mate_adjust_counterexample:
  "TTPut sample_macros one_entry 65536 3 32767 TT_EXACT 1 1 0 = Inl AssertionFailed
   \<and> adjustScore 32767 1 = 32768
   \<and> TTScore (TTEntry sample_macros (adjustScore 32767 1) TT_EXACT 3 1 0) 1 = - 32767"
  using scan_one_entry [of TT_EXACT] by (simp add: put_eval sample_eval)

subsection \<open>Non-empty slots form a prefix\<close>

lemma bucket_prefix_iff: "bucket_prefix E idx \<longleftrightarrow> (E (idx + 2) \<noteq> 0 \<longrightarrow> E idx \<noteq> 0)"
  by (simp add: bucket_prefix_def all_less_BUCKET_SIZE slot_simps)

lemma TTClear_inv: "tt_sized s \<Longrightarrow> tt_sized (TTClear s) \<and> tt_prefix (TTClear s)"
  by (auto simp: tt_sized_def tt_prefix_def bucket_prefix_iff TTClear_def
      sizeof_TTValue_def BUCKET_SIZE_def NO_ENTRY_def)

lemma TTInit_inv: "TTInit mb s = Inr s' \<Longrightarrow> tt_sized s' \<and> tt_prefix s'"
proof -
  assume a: "TTInit mb s = Inr s'"
  then obtain p where s': "s' = TTClear (s\<lparr>SIZE := 2 ^ p * sizeof_TTValue * BUCKET_SIZE * 2, POWER := p\<rparr>)"
    by (auto simp: TTInit_def Let_def split: if_splits)
  have "tt_sized (s\<lparr>SIZE := 2 ^ p * sizeof_TTValue * BUCKET_SIZE * 2, POWER := p\<rparr>)"
    by (simp add: tt_sized_def)
  then show ?thesis unfolding s' by (rule TTClear_inv)
qed

lemma TTIdx_bucket: "\<exists>b<2 ^ POWER s. TTIdx s hash = b * (BUCKET_SIZE * 2)"
  by (rule exI [of _ "unat hash mod 2 ^ POWER s"]) (simp add: TTIdx_def)

lemma scan_Replace_cases:
  assumes "TTPut_scan M E hash depth flag idx idx INT32_MAX idx = Replace r"
  shows "r = idx \<or> (r = idx + 2 \<and> E idx \<noteq> 0 \<and> E idx \<noteq> hash)"
  using assms unfolding TTPut_scan_bucket by (auto split: if_splits)

lemma bucket_prefix_update:
  assumes pre: "bucket_prefix E (b * (BUCKET_SIZE * 2))"
    and scan: "TTPut_scan M E hash depth flag idx idx INT32_MAX idx = Replace r"
    and idx: "idx = b0 * (BUCKET_SIZE * 2)" and nz: "hash \<noteq> 0"
  shows "bucket_prefix (E(r := hash, r + 1 := tt)) (b * (BUCKET_SIZE * 2))"
proof (cases "b = b0")
  case True
  from scan_Replace_cases [OF scan] show ?thesis
    using pre nz unfolding bucket_prefix_iff True idx [symmetric] by auto
next
  case False
  then have "b < b0 \<or> b0 < b" by auto
  then have far: "b * 4 + 2 < b0 * 4 \<or> b0 * 4 + 3 < b * 4" by auto
  from scan_Replace_cases [OF scan] have r: "r = b0 * 4 \<or> r = b0 * 4 + 2"
    by (auto simp: idx BUCKET_SIZE_def)
  show ?thesis
    using pre far r unfolding bucket_prefix_iff by (auto simp: BUCKET_SIZE_def)
qed

lemma TTPut_inv:
  assumes "TTPut M s hash depth score flag move ply eval = Inr (tt, s')" and "hash \<noteq> 0"
    and "tt_sized s" and "tt_prefix s"
  shows "tt_sized s' \<and> tt_prefix s'"
proof (cases "TTPut_scan M (TRANSPOSITION_ENTRIES s) hash depth flag (TTIdx s hash) (TTIdx s hash)
     INT32_MAX (TTIdx s hash)")
  case (Abort v)
  from TTPut_Abort [OF this] assms show ?thesis by simp
next
  case (Replace r)
  from TTPut_Replace [OF this assms(1)]
  have s': "s' = s\<lparr>TRANSPOSITION_ENTRIES := (TRANSPOSITION_ENTRIES s)(r := hash, r + 1 := tt)\<rparr>"
    by simp
  obtain b0 where b0: "TTIdx s hash = b0 * (BUCKET_SIZE * 2)"
    using TTIdx_bucket by blast
  have "tt_prefix s'"
    unfolding tt_prefix_def s' using assms(4) bucket_prefix_update [OF _ Replace b0 assms(2)]
    by (simp add: tt_prefix_def)
  moreover have "tt_sized s'" using assms(3) by (simp add: s' tt_sized_def)
  ultimately show ?thesis by simp
qed

lemma tt_step_inv:
  assumes "tt_step M s op = Inr s'" and "nonzero_hash op" and "tt_sized s" and "tt_prefix s"
  shows "tt_sized s' \<and> tt_prefix s'"
proof (cases op)
  case (Init mb)
  with assms(1) show ?thesis by (simp add: TTInit_inv)
next
  case Clear
  with assms(1,3) show ?thesis using TTClear_inv by auto
next
  case (Put hash depth score flag move ply eval)
  with assms(1) obtain tt where "TTPut M s hash depth score flag move ply eval = Inr (tt, s')"
    by (auto split: sum.splits)
  from TTPut_inv [OF this] assms(2,3,4) Put show ?thesis by simp
qed

lemma tt_run_inv:
  "tt_run M s ops = Inr s' \<Longrightarrow> \<forall>op\<in>set ops. nonzero_hash op \<Longrightarrow> tt_sized s \<Longrightarrow> tt_prefix s \<Longrightarrow>
   tt_sized s' \<and> tt_prefix s'"
proof (induction ops arbitrary: s)
  case Nil
  then show ?case by simp
next
  case (Cons op ops)
  from Cons.prems(1) obtain s1 where s1: "tt_step M s op = Inr s1" "tt_run M s1 ops = Inr s'"
    by (auto split: sum.splits)
  from tt_step_inv [OF s1(1)] Cons.prems have "tt_sized s1 \<and> tt_prefix s1" by simp
  with Cons.IH [OF s1(2)] Cons.prems(2) show ?case by simp
qed

lemma no_shadow:
  assumes "tt_prefix s" and "hash \<noteq> 0"
    and "TTPut_scan M (TRANSPOSITION_ENTRIES s) hash depth flag (TTIdx s hash) (TTIdx s hash)
           INT32_MAX (TTIdx s hash) = Replace r"
    and "TRANSPOSITION_ENTRIES s r = 0"
  shows "\<forall>k<BUCKET_SIZE. slot_key (TRANSPOSITION_ENTRIES s) (TTIdx s hash) k \<noteq> hash"
proof -
  obtain b0 where b0: "b0 < 2 ^ POWER s" "TTIdx s hash = b0 * (BUCKET_SIZE * 2)"
    using TTIdx_bucket by blast
  with assms(1) have "bucket_prefix (TRANSPOSITION_ENTRIES s) (TTIdx s hash)"
    by (simp add: tt_prefix_def)
  with scan_Replace_cases [OF assms(3)] assms(2,4) show ?thesis
    unfolding bucket_prefix_iff all_less_BUCKET_SIZE slot_simps by auto
qed

text \<open>
  C10. After \<open>TTInit\<close> followed by any sequence of \<open>TTInit\<close>, \<open>TTClear\<close> and \<open>TTPut\<close> with non-zero
  hashes, in every bucket no slot with a zero key precedes a slot with a non-zero key, and
  whenever the scan of \<open>TTPut\<close> for a non-zero hash stops at an empty slot, no slot of the
  bucket holds that hash.
\<close>

theorem tt_nonempty_prefix:
  assumes "tt_run M s0 (Init mb # ops) = Inr s"
    and "\<forall>op\<in>set ops. nonzero_hash op"
  shows "tt_prefix s
    \<and> (\<forall>hash depth flag r. hash \<noteq> 0
          \<and> TTPut_scan M (TRANSPOSITION_ENTRIES s) hash depth flag (TTIdx s hash) (TTIdx s hash)
               INT32_MAX (TTIdx s hash) = Replace r
          \<and> TRANSPOSITION_ENTRIES s r = 0
        \<longrightarrow> (\<forall>k<BUCKET_SIZE. slot_key (TRANSPOSITION_ENTRIES s) (TTIdx s hash) k \<noteq> hash))"
proof -
  from assms(1) obtain s1 where s1: "TTInit mb s0 = Inr s1" "tt_run M s1 ops = Inr s"
    by (auto split: sum.splits)
  from TTInit_inv [OF s1(1)] tt_run_inv [OF s1(2) assms(2)] have "tt_prefix s" by simp
  then show ?thesis using no_shadow by blast
qed

lemma hash0_run_eval:
  "\<not> isl hash0_run \<and> TRANSPOSITION_ENTRIES (projr hash0_run) 0 = 0
   \<and> TRANSPOSITION_ENTRIES (projr hash0_run) 2 = 65536
   \<and> TRANSPOSITION_ENTRIES (projr hash0_run) (Suc (Suc 0)) = 65536"
  by (simp add: hash0_run_def run_eval put_eval sample_eval TTPut_scan_bucket)

text \<open>
  The hash 0 is the key of an empty slot. A \<open>TTPut\<close> of hash 0 into a full bucket evicts the
  shallower first slot and leaves a zero key before a non-zero one; the next \<open>TTPut\<close> of the
  hash in the second slot stops at the first slot.
\<close>

theorem tt_nonempty_prefix_counterexample:
  "\<not> isl hash0_run \<and> TRANSPOSITION_ENTRIES (projr hash0_run) 0 = 0
   \<and> TRANSPOSITION_ENTRIES (projr hash0_run) 2 = 65536
   \<and> \<not> tt_prefix (projr hash0_run)
   \<and> TTPut_scan sample_macros (TRANSPOSITION_ENTRIES (projr hash0_run)) 65536 1 TT_EXACT 0 0
        INT32_MAX 0 = Replace 0"
proof -
  have "\<not> bucket_prefix (TRANSPOSITION_ENTRIES (projr hash0_run)) 0"
    using hash0_run_eval by (simp add: bucket_prefix_iff)
  then have "\<not> bucket_prefix (TRANSPOSITION_ENTRIES (projr hash0_run)) (0 * (BUCKET_SIZE * 2))"
    by simp
  moreover have "(0::nat) < 2 ^ POWER (projr hash0_run)"
    by simp
  ultimately have "\<not> tt_prefix (projr hash0_run)"
    unfolding tt_prefix_def by blast
  then show ?thesis
    using hash0_run_eval by (simp add: TTPut_scan_bucket)
qed

text \<open>A run with a clear in the middle and two hashes of one bucket.\<close>

theorem tt_nonempty_prefix_witness:
  "tt_prefix (projr (tt_run sample_macros tt_boot (Init 1 # clean_ops)))"
proof -
  have "\<not> isl (tt_run sample_macros tt_boot (Init 1 # clean_ops))"
    by (simp add: clean_ops_def run_eval put_eval sample_eval TTPut_scan_bucket)
  then obtain s where r: "tt_run sample_macros tt_boot (Init 1 # clean_ops) = Inr s"
    by (cases "tt_run sample_macros tt_boot (Init 1 # clean_ops)") auto
  have n: "\<forall>op\<in>set clean_ops. nonzero_hash op"
    by (simp add: clean_ops_def)
  from tt_nonempty_prefix [OF r n] r show ?thesis by simp
qed


section \<open>Properties of the search\<close>

lemma TTProbe_scan_bucket:
  "TTProbe_scan E hash idx idx =
     (if E idx = hash then E (idx + 1)
      else if E (idx + 2) = hash then E (idx + 3) else NO_ENTRY)"
proof -
  have a: "idx < idx + BUCKET_SIZE * 2" "idx + 2 < idx + BUCKET_SIZE * 2"
    "\<not> idx + 2 + 2 < idx + BUCKET_SIZE * 2"
    by (simp_all add: BUCKET_SIZE_def)
  have e: "idx + 2 + 1 = idx + 3" by simp
  show ?thesis
    apply (subst TTProbe_scan.simps)
    apply (simp only: a if_True)
    apply (subst TTProbe_scan.simps)
    apply (simp only: a if_True)
    apply (subst TTProbe_scan.simps)
    apply (simp only: a if_False e)
    done
qed

lemmas sample_defs = sample_env_def sample_moves_def sample_board_def sample_data_def
  sample_params_def sample_state_def sample_at_def empty_table_def score_of_def state_of_def

lemmas quiesce_eval = quiesce_body_def quiesce_node_def quiesce_entry_def quiesce_iter_def
  quiesce_filter_def captured_piece_def stand_pat_def tt_cutoff_quiesce_def
  poll_def communicate_def play_def unplay_def negated_def obind_def stopped_def
  bubbleTopMove_def top_index_def
  TTProbe_def TTProbe_scan_bucket TTIdx_def BUCKET_SIZE_def NO_ENTRY_def Let_def
  DELTA_CUTOFF_def WHITE_def

lemmas finish_eval = TTPut_def TTPut_scan_bucket TTScore_def TTScoreBits_def adjustScore_def
  MATE_BOUND_def INT16_MAX_def INT16_MIN_def Let_def TTIdx_def BUCKET_SIZE_def

lemmas negamax_run = negamax_body_def negamax_node_def negamax_entry_def negamax_eval_def
  negamax_prune_def negamax_finish_def negamax_iter_def tt_cutoff_def refine_eval_def
  iter_singular_def singular_applies_def pruned_def is_tactical_def iter_search_def
  search_ladder_def lmr_R_def iter_update_def cutoff_heuristics_def node_bound_def ttPut_def
  FUTILITY_def FUTILITY_MARGIN_def

lemma five: "(5::nat) = Suc (Suc (Suc (Suc (Suc 0))))"
  by simp

subsection \<open>The ply limit\<close>

lemma quiesce_ply_limit:
  assumes "sd_ply (st_data st) > MAX_DEPTH E - 1" and "not_drawn E (sd_board (st_data st))"
  shows "quiesce (Suc n) E alpha beta st = Ret (Evaluate E (sd_board (st_data st)), [], counted st)"
  using assms
  by (simp add: quiesce_body_def quiesce_node_def quiesce_entry_def Let_def not_drawn_def
      counted_def)

lemma negamax_ply_limit:
  assumes "sd_ply (st_data st) > MAX_DEPTH E - 1" and "not_drawn E (sd_board (st_data st))"
    and "sd_ply (st_data st) \<noteq> 0"
  shows "negamax (Suc (Suc n)) E alpha beta depth st
           = Ret (Evaluate E (sd_board (st_data st)), [], counted st)"
proof (cases "depth = 0")
  case True
  then show ?thesis
    using quiesce_ply_limit [OF assms(1,2)] by (simp add: negamax_body_def)
next
  case False
  then show ?thesis
    using assms
    by (simp add: negamax_body_def negamax_node_def negamax_entry_def Let_def not_drawn_def
        counted_def obind_def)
qed

text \<open>
  What the code does at the limit it compares with: when the ply is greater than
  \<open>MAX_DEPTH - 1\<close> and the position is not drawn, \<open>quiesce\<close> returns the static evaluation of
  the position, and so does \<open>negamax\<close> when not at the root (for depth 0 through \<open>quiesce\<close>);
  the only change to the state is the node count and \<open>seldepth\<close>.
\<close>

lemma ply_limit_static_eval:
  assumes "sd_ply (st_data st) > MAX_DEPTH E - 1" and "not_drawn E (sd_board (st_data st))"
  shows "quiesce (Suc n) E alpha beta st
           = Ret (Evaluate E (sd_board (st_data st)), [], counted st)
    \<and> (sd_ply (st_data st) \<noteq> 0 \<longrightarrow>
         negamax (Suc (Suc n)) E alpha beta depth st
           = Ret (Evaluate E (sd_board (st_data st)), [], counted st))"
  using quiesce_ply_limit [OF assms] negamax_ply_limit [OF assms] by simp


subsection \<open>Cutoffs from the table\<close>








subsection \<open>The bound kind written to the table\<close>








subsection \<open>The moves quiesce does not search\<close>







subsection \<open>The aspiration window\<close>








subsection \<open>The stop flag\<close>

lemma stopped_data [simp]: "stopped (st\<lparr>st_data := d\<rparr>) = stopped st"
  by (simp add: stopped_def)

lemma stopped_unplay [simp]: "stopped (unplay E move st) = stopped st"
  by (simp add: unplay_def stopped_def Let_def)

lemma stopped_play [simp]: "stopped (play E move st) = stopped st"
  by (simp add: play_def stopped_def Let_def)

lemma negated_Ret: "negated m = Ret (sc, pv, st) \<longleftrightarrow> m = Ret (- sc, pv, st)"
  by (auto simp: negated_def obind_def split: outcome.splits)

lemma obind_Ret: "obind m f = Ret y \<longleftrightarrow> (\<exists>x. m = Ret x \<and> f x = Ret y)"
  by (auto simp: obind_def split: outcome.splits)

lemma iter_update_stop: "stop_checked (iter_update E F V move res) nv_st"
  by (cases res) (simp add: iter_update_def stop_checked_def Let_def)

lemma iter_search_stop:
  assumes "iter_search rec E F V move se = Ret fl"
  shows "stop_checked fl nv_st"
  using assms iter_update_stop by (auto simp: iter_search_def obind_Ret)

lemma quiesce_update_stop: "stop_checked (quiesce_update F V move E res) qv_st"
  by (cases res) (simp add: quiesce_update_def stop_checked_def Let_def)

lemma quiesce_iter_stop:
  assumes "quiesce_iter recq E F V = Ret fl"
    and "quiesce_filter E F (qv_alpha V) (sd_board (st_data (qv_st V)))
           (ml_moves (bubbleTopMove (qv_moveList V) (qv_i V)) (qv_i V))
           (ml_scores (bubbleTopMove (qv_moveList V) (qv_i V)) (qv_i V)) = Play"
  shows "stop_checked fl qv_st"
  using assms quiesce_update_stop by (auto simp: quiesce_iter_def Let_def obind_Ret)

lemma negamax_prune_stop:
  assumes "negamax_prune rec E isPV skipMove ttValue beta depth eval0 st = Ret x"
  shows "case x of
           Return (r, pv, st') \<Rightarrow> st' = st \<or> (if stopped st' then r = 0 else r = beta)
         | Go (childPv, st') \<Rightarrow> st' = st \<or> \<not> stopped st'"
  using assms unfolding negamax_prune_def Let_def
  by (auto simp: obind_Ret split: if_splits prod.splits)

lemma fold_top_bounds:
  assumes "\<forall>x\<in>set xs. from \<le> x \<and> x < count" and "from \<le> b" and "b < count"
  shows "from \<le> fold (\<lambda>i best. if (scores i :: int) > scores best then i else best) xs b
       \<and> fold (\<lambda>i best. if scores i > scores best then i else best) xs b < count"
  using assms by (induction xs arbitrary: b) auto

lemma top_index_bounds:
  assumes "from < count"
  shows "from \<le> top_index scores from count \<and> top_index scores from count < count"
  unfolding top_index_def using assms by (intro fold_top_bounds) auto

lemma bubbleTopMove_count [simp]: "ml_count (bubbleTopMove moveList i) = ml_count moveList"
  by (simp add: bubbleTopMove_def Let_def)

lemma bubbleTopMove_nonnull:
  assumes "list_nonnull moveList" and "i < ml_count moveList"
  shows "list_nonnull (bubbleTopMove moveList i)"
  using assms top_index_bounds [OF assms(2), of "ml_scores moveList"]
  by (auto simp: list_nonnull_def bubbleTopMove_def Let_def)

lemma iter_update_after:
  assumes "list_nonnull (nv_moveList V)"
  shows "after_search (iter_update E F V move res) V"
  using assms by (cases res) (simp add: iter_update_def after_search_def Let_def)

lemma negamax_iter_after:
  assumes "negamax_iter rec E F V = Ret fl" and "nf_skipMove F = 0"
    and "list_nonnull (nv_moveList V)" and "nv_i V < ml_count (nv_moveList V)"
    and "stopped (nv_st V) \<longrightarrow> nv_bestScore V \<le> - MATE_BOUND"
  shows "after_search fl V"
proof -
  let ?ml = "bubbleTopMove (nv_moveList V) (nv_i V)"
  let ?move = "ml_moves ?ml (nv_i V)"
  let ?V0 = "V\<lparr>nv_moveList := ?ml\<rparr>"
  have nn: "list_nonnull ?ml"
    using assms(3,4) by (rule bubbleTopMove_nonnull)
  then have mv: "?move \<noteq> 0"
    using assms(4) by (simp add: list_nonnull_def NULL_MOVE_def)
  show ?thesis
  proof (cases "pruned E F ?V0 ?move")
    case True
    then have "\<not> stopped (nv_st V)"
      using assms(5) by (auto simp: pruned_def Let_def)
    moreover have "fl = Next ?V0"
      using assms(1,2) mv True by (simp add: negamax_iter_def Let_def)
    ultimately show ?thesis
      using nn by (simp add: after_search_def)
  next
    case False
    then obtain x where x: "iter_singular rec E F ?move (nv_pv ?V0) (nv_st ?V0) = Ret x"
      and fl: "(case x of Return r \<Rightarrow> Ret (Leave r)
                | Go (singularExtension, pv1, st1) \<Rightarrow>
                    iter_search rec E F (?V0\<lparr>nv_pv := pv1, nv_st := st1\<rparr>) ?move singularExtension)
               = Ret fl"
      using assms(1,2) mv by (auto simp: negamax_iter_def Let_def obind_Ret)
    show ?thesis
    proof (cases x)
      case (Return r)
      with fl show ?thesis by (auto simp: after_search_def)
    next
      case (Go c)
      obtain se pv1 st1 where c: "c = (se, pv1, st1)" by (cases c) auto
      from fl Go c obtain res where "fl = iter_update E F (?V0\<lparr>nv_pv := pv1, nv_st := st1\<rparr>) ?move res"
        by (auto simp: iter_search_def obind_Ret)
      moreover have "list_nonnull (nv_moveList (?V0\<lparr>nv_pv := pv1, nv_st := st1\<rparr>))"
        using nn by simp
      ultimately have "after_search fl (?V0\<lparr>nv_pv := pv1, nv_st := st1\<rparr>)"
        using iter_update_after by blast
      then show ?thesis by (simp add: after_search_def split: flow.splits)
    qed
  qed
qed

lemma negamax_loop_after:
  assumes "nf_skipMove F = 0"
  shows "negamax_loop n E F V = Ret fl \<Longrightarrow> list_nonnull (nv_moveList V) \<Longrightarrow>
     (stopped (nv_st V) \<longrightarrow> nv_bestScore V \<le> - MATE_BOUND) \<Longrightarrow>
     (case fl of
        Leave x \<Rightarrow> True
      | Break V' \<Rightarrow> \<not> stopped (nv_st V')
      | Next V' \<Rightarrow> \<not> stopped (nv_st V') \<or> (V' = V \<and> \<not> nv_i V < ml_count (nv_moveList V)))"
proof (induction n arbitrary: V fl)
  case 0
  then show ?case by simp
next
  case (Suc n)
  show ?case
  proof (cases "nv_i V < ml_count (nv_moveList V)")
    case False
    with Suc.prems(1) show ?thesis by auto
  next
    case True
    with Suc.prems(1) obtain fl1 where it: "negamax_iter (\<lambda>a b d s. negamax n E a b d s) E F V = Ret fl1"
      and rest: "(case fl1 of Leave r \<Rightarrow> Ret (Leave r) | Break V' \<Rightarrow> Ret (Break V')
                  | Next V' \<Rightarrow> negamax_loop n E F (V'\<lparr>nv_i := Suc (nv_i V')\<rparr>)) = Ret fl"
      by (auto simp: obind_Ret)
    from negamax_iter_after [OF it assms Suc.prems(2) True Suc.prems(3)]
    have af: "after_search fl1 V" .
    show ?thesis
    proof (cases fl1)
      case (Leave r)
      with rest show ?thesis by auto
    next
      case (Break V')
      with rest af show ?thesis by (auto simp: after_search_def)
    next
      case (Next V')
      with af have ns: "\<not> stopped (nv_st V')" and nn: "list_nonnull (nv_moveList V')"
        by (simp_all add: after_search_def)
      from rest Next have "negamax_loop n E F (V'\<lparr>nv_i := Suc (nv_i V')\<rparr>) = Ret fl" by simp
      from Suc.IH [OF this] nn ns show ?thesis
        by (auto split: flow.splits)
    qed
  qed
qed

lemma negamax_finish_no_put:
  assumes "negamax_finish E F V = Ret (r, pv, st')"
    and "nf_skipMove F \<noteq> 0 \<or> ml_count (nv_moveList V) = 0"
  shows "st' = nv_st V"
  using assms by (auto simp: negamax_finish_def Let_def obind_Ret split: if_splits)

lemma negamax_node_Go:
  assumes "negamax_node rec E alpha beta depth st = Ret (Go (F, V))"
  obtains alpha1 beta1 st2 ttValue eval improving st3 childPv st4 where
    "negamax_entry E alpha beta st = Go (alpha1, beta1, st2)"
    "ttValue = (if sd_skipMove (st_data st) (sd_ply (st_data st)) \<noteq> 0 then NO_ENTRY
                else TTProbe (st_tt st2) (zobrist (sd_board (st_data st2))))"
    "tt_cutoff E ttValue depth (sd_ply (st_data st2)) alpha1 beta1 = None"
    "negamax_eval E ttValue st2 = Ret (eval, improving, st3)"
    "negamax_prune rec E (beta - alpha \<noteq> 1) (sd_skipMove (st_data st) (sd_ply (st_data st)))
       ttValue beta1 depth eval st3 = Ret (Go (childPv, st4))"
    "F = \<lparr>nf_depth = depth, nf_beta = beta1, nf_a0 = alpha, nf_isPV = (beta - alpha \<noteq> 1),
          nf_isRoot = (sd_ply (st_data st) = 0),
          nf_skipMove = sd_skipMove (st_data st) (sd_ply (st_data st)),
          nf_improving = improving, nf_ttValue = ttValue\<rparr>"
    "V = \<lparr>nv_i = 0, nv_moveList = generateMoves E (st_data st4), nv_numMoves = 0,
          nv_bestScore = - CHECKMATE, nv_bestMove = 0, nv_alpha = alpha1, nv_pv = [],
          nv_childPv = childPv, nv_st = st4\<rparr>"
  using assms unfolding negamax_node_def Let_def
  by (auto simp: obind_def
      split: step.splits option.splits outcome.splits if_splits prod.splits)

lemma negamax_node_vars:
  assumes "negamax_node rec E alpha beta depth st = Ret (Go (F, V))"
  shows "nv_i V = 0 \<and> nv_bestScore V = - CHECKMATE \<and> (\<exists>d. nv_moveList V = generateMoves E d)"
  using assms by (elim negamax_node_Go) auto

lemma stopped_no_put:
  assumes nn: "moves_nonnull E"
    and node: "negamax_node rec E alpha beta depth st = Ret (Go (F, V))"
    and loop: "negamax_loop n E F V = Ret fl" and fl: "fl = Break V' \<or> fl = Next V'"
    and st: "stopped (nv_st V')"
    and fin: "negamax_finish E F V' = Ret (r, pv, st')"
  shows "(nf_skipMove F \<noteq> 0 \<or> ml_count (nv_moveList V') = 0) \<and> st' = nv_st V'"
proof (cases "nf_skipMove F = 0")
  case False
  with fin show ?thesis using negamax_finish_no_put by blast
next
  case True
  from negamax_node_vars [OF node] nn
  have v: "nv_i V = 0" "nv_bestScore V \<le> - MATE_BOUND" "list_nonnull (nv_moveList V)"
    by (auto simp: moves_nonnull_def CHECKMATE_def MATE_BOUND_def)
  from negamax_loop_after [OF True loop v(3)] v(2) fl st
  have "V' = V \<and> \<not> nv_i V < ml_count (nv_moveList V)"
    by auto
  with v(1) have "ml_count (nv_moveList V') = 0" by simp
  with fin show ?thesis using negamax_finish_no_put by blast
qed

lemma st_tt_play [simp]: "st_tt (play E move st) = st_tt st"
  by (simp add: play_def Let_def)

lemma st_tt_unplay [simp]: "st_tt (unplay E move st) = st_tt st"
  by (simp add: unplay_def Let_def)

lemma st_tt_poll [simp]: "st_tt (poll E st) = st_tt st"
  by (simp add: poll_def)

lemma quiesce_node_tt:
  "(case quiesce_node E alpha beta st of
      Return (r, pv, st') \<Rightarrow> st_tt st' = st_tt st
    | Go (F, V) \<Rightarrow> st_tt (qv_st V) = st_tt st)"
  by (auto simp: quiesce_node_def quiesce_entry_def stand_pat_def Let_def
      split: step.splits option.splits prod.splits if_splits)

lemma quiesce_update_tt:
  "same_table (quiesce_update F V move E (sc, cpv, st1)) (st_tt st1)"
  by (simp add: quiesce_update_def same_table_def Let_def)

lemma quiesce_iter_tt:
  assumes rec: "\<And>a b s r pv s'. recq a b s = Ret (r, pv, s') \<Longrightarrow> st_tt s' = st_tt s"
    and it: "quiesce_iter recq E F V = Ret fl"
  shows "same_table fl (st_tt (qv_st V))"
proof -
  let ?ml = "bubbleTopMove (qv_moveList V) (qv_i V)"
  let ?move = "ml_moves ?ml (qv_i V)"
  show ?thesis
  proof (cases "quiesce_filter E F (qv_alpha V) (sd_board (st_data (qv_st V))) ?move
      (ml_scores ?ml (qv_i V))")
    case Skip
    with it show ?thesis by (auto simp: quiesce_iter_def Let_def same_table_def)
  next
    case Stop
    with it show ?thesis by (auto simp: quiesce_iter_def Let_def same_table_def)
  next
    case AssertFails
    with it show ?thesis by (auto simp: quiesce_iter_def Let_def)
  next
    case Play
    with it obtain sc cpv st1 where
      r: "recq (- qf_beta F) (- qv_alpha V) (play E ?move (qv_st V)) = Ret (- sc, cpv, st1)"
      and fl: "fl = quiesce_update F (V\<lparr>qv_moveList := ?ml\<rparr>) ?move E (sc, cpv, st1)"
      by (auto simp: quiesce_iter_def Let_def obind_Ret negated_Ret)
    from rec [OF r] have "st_tt st1 = st_tt (qv_st V)" by simp
    moreover have "same_table (quiesce_update F (V\<lparr>qv_moveList := ?ml\<rparr>) ?move E (sc, cpv, st1))
        (st_tt st1)"
      by (rule quiesce_update_tt)
    ultimately show ?thesis unfolding fl by simp
  qed
qed

lemma quiesce_tt_both:
  "(\<forall>a b s r pv s'. quiesce n E a b s = Ret (r, pv, s') \<longrightarrow> st_tt s' = st_tt s)
   \<and> (\<forall>F V fl. quiesce_loop n E F V = Ret fl \<longrightarrow> same_table fl (st_tt (qv_st V)))"
proof (induction n)
  case 0
  then show ?case by simp
next
  case (Suc n)
  have loop: "same_table fl (st_tt (qv_st V))" if l: "quiesce_loop (Suc n) E F V = Ret fl" for F V fl
  proof (cases "qv_i V < ml_count (qv_moveList V)")
    case False
    with l show ?thesis by (auto simp: same_table_def)
  next
    case True
    with l obtain fl1 where it: "quiesce_iter (\<lambda>a b s. quiesce n E a b s) E F V = Ret fl1"
      and rest: "(case fl1 of Leave r \<Rightarrow> Ret (Leave r) | Break V' \<Rightarrow> Ret (Break V')
                  | Next V' \<Rightarrow> quiesce_loop n E F (V'\<lparr>qv_i := Suc (qv_i V')\<rparr>)) = Ret fl"
      by (auto simp: obind_Ret)
    have s1: "same_table fl1 (st_tt (qv_st V))"
      using Suc.IH by (intro quiesce_iter_tt [OF _ it]) blast
    show ?thesis
    proof (cases fl1)
      case (Leave r)
      with rest s1 show ?thesis by auto
    next
      case (Break V')
      with rest s1 show ?thesis by auto
    next
      case (Next V')
      with rest have "quiesce_loop n E F (V'\<lparr>qv_i := Suc (qv_i V')\<rparr>) = Ret fl" by simp
      with Suc.IH have "same_table fl (st_tt (qv_st (V'\<lparr>qv_i := Suc (qv_i V')\<rparr>)))" by blast
      with s1 Next show ?thesis by (simp add: same_table_def)
    qed
  qed
  have q: "st_tt s' = st_tt s" if r: "quiesce (Suc n) E a b s = Ret (r, pv, s')" for a b s r pv s'
  proof (cases "quiesce_node E a b s")
    case (Return x)
    with r quiesce_node_tt [where E = E and alpha = a and beta = b and st = s] show ?thesis
      by (auto simp: quiesce_body_def)
  next
    case (Go c)
    obtain F V where c: "c = (F, V)" by (cases c) auto
    from r Go c obtain fl where l: "quiesce_loop n E F V = Ret fl"
      and fin: "(case fl of Leave r \<Rightarrow> Ret r
                 | Break V' \<Rightarrow> Ret (qv_bestScore V', qv_pv V', qv_st V')
                 | Next V' \<Rightarrow> Ret (qv_bestScore V', qv_pv V', qv_st V')) = Ret (r, pv, s')"
      by (auto simp: quiesce_body_def obind_Ret)
    from l Suc.IH have "same_table fl (st_tt (qv_st V))" by blast
    moreover from quiesce_node_tt [where E = E and alpha = a and beta = b and st = s] Go c have "st_tt (qv_st V) = st_tt s" by simp
    ultimately show ?thesis
      using fin by (auto simp: same_table_def split: flow.splits)
  qed
  from loop q show ?case by blast
qed

lemma quiesce_tt: "quiesce n E a b s = Ret (r, pv, s') \<Longrightarrow> st_tt s' = st_tt s"
  using quiesce_tt_both by blast

text \<open>C4. The stop flag and the frames of the search. After a move has been searched and
  unmade, a frame whose stop flag is set returns 0: one pass of the move loop of \<^verbatim>\<open>negamax\<close>
  (lines 245-281) and one pass of the loop of \<^verbatim>\<open>quiesce\<close> that plays its move either leave the
  frame with the score 0 and the flag set, or go on with the flag clear; the null-move search
  (lines 198-213), when it has run, returns 0 if the flag is set, \<^verbatim>\<open>beta\<close> if it leaves with the flag
  clear, and goes on only with the flag clear. No frame writes to the transposition table with the
  flag set: when no generated move is \<^verbatim>\<open>NULL_MOVE\<close>, a frame of \<^verbatim>\<open>negamax\<close> whose move loop ends
  with the flag set has no move or is a singular search, and returns without \<^verbatim>\<open>ttPut\<close>; and
  \<^verbatim>\<open>quiesce\<close> never writes to the table. A frame
  that plays no move (a leaf, a stand-pat or a table cutoff) returns its own score also with the
  flag set.\<close>

theorem stop_returns_zero:
  "(\<forall>fl. iter_search rec E F V move se = Ret fl \<longrightarrow> stop_checked fl nv_st)
   \<and> (\<forall>fl. quiesce_iter recq E Fq Vq = Ret fl
         \<and> quiesce_filter E Fq (qv_alpha Vq) (sd_board (st_data (qv_st Vq)))
             (ml_moves (bubbleTopMove (qv_moveList Vq) (qv_i Vq)) (qv_i Vq))
             (ml_scores (bubbleTopMove (qv_moveList Vq) (qv_i Vq)) (qv_i Vq)) = Play
       \<longrightarrow> stop_checked fl qv_st)
   \<and> (\<forall>x. negamax_prune rec E isPV skipMove ttValue beta depth eval0 st = Ret x
       \<longrightarrow> (case x of
              Return (r, pv, st') \<Rightarrow> st' = st \<or> (if stopped st' then r = 0 else r = beta)
            | Go (childPv, st') \<Rightarrow> st' = st \<or> \<not> stopped st'))
   \<and> (\<forall>F0 V0 fl V' r pv st'.
         moves_nonnull E \<and> negamax_node rec E alpha beta depth st = Ret (Go (F0, V0))
         \<and> negamax_loop n E F0 V0 = Ret fl \<and> (fl = Break V' \<or> fl = Next V')
         \<and> stopped (nv_st V') \<and> negamax_finish E F0 V' = Ret (r, pv, st')
       \<longrightarrow> (nf_skipMove F0 \<noteq> 0 \<or> ml_count (nv_moveList V') = 0) \<and> st' = nv_st V')
   \<and> (\<forall>a b s r pv s'. quiesce n E a b s = Ret (r, pv, s') \<longrightarrow> st_tt s' = st_tt s)"
proof (intro conjI allI impI, goal_cases)
  case (1 fl)
  then show ?case by (rule iter_search_stop)
next
  case (2 fl)
  then show ?case using quiesce_iter_stop by blast
next
  case (3 x)
  then show ?case by (rule negamax_prune_stop)
next
  case (4 F0 V0 fl V' r pv st')
  then have "moves_nonnull E" "negamax_node rec E alpha beta depth st = Ret (Go (F0, V0))"
    "negamax_loop n E F0 V0 = Ret fl" "fl = Break V' \<or> fl = Next V'" "stopped (nv_st V')"
    "negamax_finish E F0 V' = Ret (r, pv, st')"
    by blast+
  from stopped_no_put [OF this] show ?case by (rule conjunct1)
next
  case (5 F0 V0 fl V' r pv st')
  then have "moves_nonnull E" "negamax_node rec E alpha beta depth st = Ret (Go (F0, V0))"
    "negamax_loop n E F0 V0 = Ret fl" "fl = Break V' \<or> fl = Next V'" "stopped (nv_st V')"
    "negamax_finish E F0 V' = Ret (r, pv, st')"
    by blast+
  from stopped_no_put [OF this] show ?case by (rule conjunct2)
next
  case (6 a b s r pv s')
  then show ?case by (rule quiesce_tt)
qed

lemmas negamax_eval_defs = negamax_body_def negamax_node_def negamax_entry_def negamax_eval_def
  negamax_prune_def negamax_finish_def negamax_iter_def tt_cutoff_def CHECKMATE_def

theorem stop_returns_zero_witness:
  "(case quiesce_iter (\<lambda>a b s. quiesce 2 sample_env a b s) sample_env sample_qframe sample_qvars of
      Ret (Leave (r, pv, st')) \<Rightarrow> r = 0 \<and> stopped st'
    | _ \<Rightarrow> False)
   \<and> (\<exists>F V r pv. negamax_node (\<lambda>a b d s. Timeout) sample_env (- 100) 100 1 stopped_leaf = Ret (Go (F, V))
         \<and> negamax_loop 1 sample_env F V = Ret (Next V) \<and> stopped (nv_st V)
         \<and> negamax_finish sample_env F V = Ret (r, pv, nv_st V))
   \<and> map_option st_tt (state_of (quiesce 3 sample_env (- 100) 100 (sample_at 0 1))) = Some empty_table"
proof -
  note T = stop_returns_zero [where E = sample_env
      and recq = "\<lambda>a b s. quiesce 2 sample_env a b s" and Fq = sample_qframe
      and Vq = sample_qvars]
  have play: "quiesce_filter sample_env sample_qframe (qv_alpha sample_qvars)
        (sd_board (st_data (qv_st sample_qvars)))
        (ml_moves (bubbleTopMove (qv_moveList sample_qvars) (qv_i sample_qvars)) (qv_i sample_qvars))
        (ml_scores (bubbleTopMove (qv_moveList sample_qvars) (qv_i sample_qvars)) (qv_i sample_qvars))
      = Play"
    by (simp add: sample_qvars_def sample_qframe_def quiesce_eval sample_defs)
  have ex: "\<exists>r pv st'. quiesce_iter (\<lambda>a b s. quiesce 2 sample_env a b s) sample_env sample_qframe
      sample_qvars = Ret (Leave (r, pv, st'))"
    by (simp add: sample_qvars_def sample_qframe_def quiesce_eval quiesce_update_def sample_defs
        numeral_2_eq_2)
  then obtain r pv st' where it: "quiesce_iter (\<lambda>a b s. quiesce 2 sample_env a b s) sample_env
      sample_qframe sample_qvars = Ret (Leave (r, pv, st'))"
    by blast
  from T [THEN conjunct2, THEN conjunct1, THEN spec, of "Leave (r, pv, st')"] it play
  have a: "r = 0 \<and> stopped st'"
    by (simp add: stop_checked_def)
  have nn: "moves_nonnull sample_env"
    by (simp add: moves_nonnull_def list_nonnull_def sample_defs NULL_MOVE_def)
  have "\<exists>F V r pv st'. negamax_node (\<lambda>a b d s. Timeout) sample_env (- 100) 100 1 stopped_leaf
        = Ret (Go (F, V))
      \<and> negamax_loop 1 sample_env F V = Ret (Next V) \<and> stopped (nv_st V)
      \<and> negamax_finish sample_env F V = Ret (r, pv, st')"
    by (simp add: negamax_eval_defs stopped_leaf_def sample_defs poll_def communicate_def play_def
        obind_def stopped_def Let_def TTProbe_def TTProbe_scan_bucket TTIdx_def BUCKET_SIZE_def
        NO_ENTRY_def)
  then obtain F V r1 pv1 st1 where n: "negamax_node (\<lambda>a b d s. Timeout) sample_env (- 100) 100 1
        stopped_leaf = Ret (Go (F, V))"
    and l: "negamax_loop 1 sample_env F V = Ret (Next V)" and s: "stopped (nv_st V)"
    and f: "negamax_finish sample_env F V = Ret (r1, pv1, st1)"
    by blast
  note T4 = stop_returns_zero [where E = sample_env and rec = "\<lambda>a b d s. Timeout" and n = 1
      and alpha = "- 100" and beta = 100 and depth = 1 and st = stopped_leaf,
      THEN conjunct2, THEN conjunct2, THEN conjunct2, THEN conjunct1]
  have "st1 = nv_st V"
    using T4 nn n l s f by blast
  with n l s f have b: "\<exists>F V r pv. negamax_node (\<lambda>a b d s. Timeout) sample_env (- 100) 100 1
        stopped_leaf = Ret (Go (F, V))
      \<and> negamax_loop 1 sample_env F V = Ret (Next V) \<and> stopped (nv_st V)
      \<and> negamax_finish sample_env F V = Ret (r, pv, nv_st V)"
    by blast
  have "\<exists>r pv s'. quiesce 3 sample_env (- 100) 100 (sample_at 0 1) = Ret (r, pv, s')"
    by (simp add: quiesce_eval quiesce_update_def sample_defs numeral_3_eq_3)
  then obtain r2 pv2 s2 where q: "quiesce 3 sample_env (- 100) 100 (sample_at 0 1) = Ret (r2, pv2, s2)"
    by blast
  note T5 = stop_returns_zero [where E = sample_env and n = 3,
      THEN conjunct2, THEN conjunct2, THEN conjunct2, THEN conjunct2]
  have "st_tt s2 = st_tt (sample_at 0 1)"
    using T5 q by blast
  with q have c: "map_option st_tt (state_of (quiesce 3 sample_env (- 100) 100 (sample_at 0 1)))
      = Some empty_table"
    by (simp add: state_of_def sample_defs)
  from a it b c show ?thesis by simp
qed

text \<open>Not every frame returns 0 with the flag set. The quiescence frame that polls the stop at node 2048,
  in the position after the only move, has no capture to play and returns its stand-pat score -50
  with the flag set; so does the same frame entered with the flag already set.\<close>

theorem stop_returns_zero_counterexample:
  "score_of (quiesce 2 sample_env (- 100) 100 (play sample_env 7 (sample_at 2047 1))) = Some (- 50)
   \<and> map_option stopped (state_of (quiesce 2 sample_env (- 100) 100
        (play sample_env 7 (sample_at 2047 1)))) = Some True
   \<and> stopped stopped_leaf
   \<and> score_of (quiesce 2 sample_env (- 100) 100 stopped_leaf) = Some (- 50)"
  by (simp add: quiesce_eval sample_defs stopped_leaf_def numeral_2_eq_2)

subsection \<open>Bounds on the scores\<close>

lemma quiesce_update_above:
  "e \<le> qv_bestScore V \<Longrightarrow> above_stand_pat e (quiesce_update F V move E res)"
  by (cases res) (simp add: quiesce_update_def above_stand_pat_def Let_def)

lemma quiesce_iter_above:
  assumes "quiesce_iter recq E F V = Ret fl" and "e \<le> qv_bestScore V"
  shows "above_stand_pat e fl"
proof (cases "quiesce_filter E F (qv_alpha V) (sd_board (st_data (qv_st V)))
      (ml_moves (bubbleTopMove (qv_moveList V) (qv_i V)) (qv_i V))
      (ml_scores (bubbleTopMove (qv_moveList V) (qv_i V)) (qv_i V))")
  case Play
  with assms(1) obtain res where
    "fl = quiesce_update F (V\<lparr>qv_moveList := bubbleTopMove (qv_moveList V) (qv_i V)\<rparr>)
       (ml_moves (bubbleTopMove (qv_moveList V) (qv_i V)) (qv_i V)) E res"
    by (auto simp: quiesce_iter_def Let_def obind_Ret)
  with assms(2) show ?thesis by (simp add: quiesce_update_above)
qed (use assms in \<open>auto simp: quiesce_iter_def Let_def above_stand_pat_def\<close>)

lemma quiesce_loop_above:
  "quiesce_loop n E F V = Ret fl \<Longrightarrow> e \<le> qv_bestScore V \<Longrightarrow> above_stand_pat e fl"
proof (induction n arbitrary: V fl)
  case 0
  then show ?case by simp
next
  case (Suc n)
  show ?case
  proof (cases "qv_i V < ml_count (qv_moveList V)")
    case False
    with Suc.prems show ?thesis by (auto simp: above_stand_pat_def)
  next
    case True
    with Suc.prems(1) obtain fl1 where it: "quiesce_iter (\<lambda>a b s. quiesce n E a b s) E F V = Ret fl1"
      and rest: "(case fl1 of Leave r \<Rightarrow> Ret (Leave r) | Break V' \<Rightarrow> Ret (Break V')
                 | Next V' \<Rightarrow> quiesce_loop n E F (V'\<lparr>qv_i := Suc (qv_i V')\<rparr>)) = Ret fl"
      by (auto simp: obind_Ret)
    from quiesce_iter_above [OF it Suc.prems(2)] have a: "above_stand_pat e fl1" .
    show ?thesis
    proof (cases fl1)
      case (Leave r)
      with rest a show ?thesis by simp
    next
      case (Break V')
      with rest a show ?thesis by simp
    next
      case (Next V')
      with rest have "quiesce_loop n E F (V'\<lparr>qv_i := Suc (qv_i V')\<rparr>) = Ret fl" by simp
      moreover from Next a have "e \<le> qv_bestScore (V'\<lparr>qv_i := Suc (qv_i V')\<rparr>)"
        by (simp add: above_stand_pat_def)
      ultimately show ?thesis by (rule Suc.IH)
    qed
  qed
qed

lemma quiesce_above_stand_pat:
  assumes "stand_pat_eval E alpha beta st = Some e"
    and "quiesce n E alpha beta st = Ret (r, pv, st')"
  shows "e \<le> r \<or> (r = 0 \<and> stopped st')"
proof (cases n)
  case 0
  with assms show ?thesis by simp
next
  case (Suc m)
  from assms(1) obtain st1 where en: "quiesce_entry E st = Go st1"
    and cut: "tt_cutoff_quiesce E (TTProbe (st_tt st1) (zobrist (sd_board (st_data st1))))
                (sd_ply (st_data st1)) alpha beta = None"
    and e: "e = fst (stand_pat E (TTProbe (st_tt st1) (zobrist (sd_board (st_data st1)))) st1)"
    by (auto simp: stand_pat_eval_def Let_def split: step.splits option.splits)
  obtain ev st2 where sp: "stand_pat E (TTProbe (st_tt st1) (zobrist (sd_board (st_data st1)))) st1
      = (ev, st2)"
    by (cases "stand_pat E (TTProbe (st_tt st1) (zobrist (sd_board (st_data st1)))) st1")
  with e have ev: "ev = e" by simp
  show ?thesis
  proof (cases "e \<ge> beta")
    case True
    with en cut sp ev have "quiesce_node E alpha beta st = Return (e, [], st2)"
      by (simp add: quiesce_node_def Let_def)
    with assms(2) Suc show ?thesis by (simp add: quiesce_body_def)
  next
    case False
    with en cut sp ev obtain F V where node: "quiesce_node E alpha beta st = Go (F, V)"
      and b: "qv_bestScore V = e"
      by (simp add: quiesce_node_def Let_def)
    with assms(2) Suc obtain fl where l: "quiesce_loop m E F V = Ret fl"
      and fin: "(case fl of Leave r \<Rightarrow> Ret r
                 | Break V' \<Rightarrow> Ret (qv_bestScore V', qv_pv V', qv_st V')
                 | Next V' \<Rightarrow> Ret (qv_bestScore V', qv_pv V', qv_st V')) = Ret (r, pv, st')"
      by (auto simp: quiesce_body_def obind_Ret)
    from quiesce_loop_above [OF l, of e] b have "above_stand_pat e fl" by simp
    with fin show ?thesis by (cases fl) (auto simp: above_stand_pat_def)
  qed
qed

lemma TTScoreBits_range: "- 32768 \<le> TTScoreBits v \<and> TTScoreBits v \<le> 32767"
proof -
  have "- (2 ^ (LENGTH(16) - 1)) \<le> sint (w :: 16 word) \<and> sint w < 2 ^ (LENGTH(16) - 1)" for w
    using sint_ge [of w] sint_lt [of w] by simp
  then show ?thesis unfolding TTScoreBits_def
    by (simp add: zle_diff1_eq [symmetric])
qed

lemma good_entry_0 [simp]: "good_entry E 0"
  by (simp add: good_entry_def TTScoreBits_def CHECKMATE_def)

lemma TTScore_in_range:
  assumes "good_entry E v" and "0 \<le> p" and "p \<le> CHECKMATE - MATE_BOUND"
  shows "in_range p (TTScore v p)"
  using assms TTScoreBits_range [of v]
  by (auto simp: good_entry_def in_range_def TTScore_def Let_def CHECKMATE_def MATE_BOUND_def)

lemma TTIdx_even:
  assumes "tt_sized t"
  shows "\<exists>m. TTIdx t hash = 4 * m \<and> 4 * m + 3 < SIZE t div sizeof_TTValue"
proof -
  have "unat hash mod 2 ^ POWER t < 2 ^ POWER t" by simp
  then have "4 * (unat hash mod 2 ^ POWER t) + 3 < 4 * 2 ^ POWER t" by linarith
  with assms show ?thesis
    by (intro exI [of _ "unat hash mod 2 ^ POWER t"])
      (simp add: TTIdx_def BUCKET_SIZE_def tt_sized_def sizeof_TTValue_def)
qed

lemma good_TTProbe:
  assumes "good_table E t"
  shows "good_entry E (TTProbe t hash)"
proof -
  from assms have sz: "tt_sized t" by (simp add: good_table_def)
  from TTIdx_even [OF sz] obtain m where m: "TTIdx t hash = 4 * m"
    and b: "4 * m + 3 < SIZE t div sizeof_TTValue" by blast
  have a: "4 * m + 1 = 2 * (2 * m) + 1" "4 * m + 3 = 2 * (2 * m + 1) + 1" by simp_all
  from b have "2 * (2 * m) + 1 < SIZE t div sizeof_TTValue"
    "2 * (2 * m + 1) + 1 < SIZE t div sizeof_TTValue" by simp_all
  with assms have "good_entry E (TRANSPOSITION_ENTRIES t (4 * m + 1))"
    "good_entry E (TRANSPOSITION_ENTRIES t (4 * m + 3))"
    unfolding a good_table_def by blast+
  then show ?thesis
    unfolding TTProbe_def TTProbe_scan_bucket m by (simp add: NO_ENTRY_def)
qed

lemma good_TTPut:
  assumes put: "TTPut (macros E) t hash depth score flag move ply eval = Inr (tt, t')"
    and t: "good_table E t" and s: "- CHECKMATE + ply \<le> score"
    and e: "\<bar>eval\<bar> \<le> MATE_BOUND"
  shows "good_table E t'"
proof (cases "TTPut_scan (macros E) (TRANSPOSITION_ENTRIES t) hash depth flag (TTIdx t hash)
     (TTIdx t hash) INT32_MAX (TTIdx t hash)")
  case (Abort v)
  from TTPut_Abort [OF this] put t show ?thesis by simp
next
  case (Replace r)
  from t have sz: "tt_sized t" by (simp add: good_table_def)
  from TTIdx_even [OF sz] obtain m where m: "TTIdx t hash = 4 * m" by blast
  from scan_Replace_cases [OF Replace] m have r: "r = 4 * m \<or> r = 4 * m + 2" by auto
  from TTPut_Replace [OF Replace put]
  have t': "t' = t\<lparr>TRANSPOSITION_ENTRIES := (TRANSPOSITION_ENTRIES t)(r := hash, r + 1 := tt)\<rparr>"
    by simp
  from Replace put have sc: "score = TTScore tt ply" and ev: "eval = TTEval (macros E) tt"
    by (auto simp: TTPut_def Let_def split: if_splits)
  have "- CHECKMATE \<le> TTScoreBits tt"
    using s sc by (auto simp: TTScore_def Let_def CHECKMATE_def MATE_BOUND_def split: if_splits)
  with e ev have g: "good_entry E tt" by (simp add: good_entry_def)
  have "good_entry E (TRANSPOSITION_ENTRIES t' (2 * k + 1))"
    if "2 * k + 1 < SIZE t div sizeof_TTValue" for k
  proof -
    from r have "2 * k + 1 \<noteq> r" by presburger
    with t g that show ?thesis by (simp add: t' good_table_def)
  qed
  with sz show ?thesis by (simp add: good_table_def t' tt_sized_def)
qed

lemma good_ttPut:
  assumes "ttPut E st hash depth score flag move ply eval = Ret st'"
    and "good_state E st" and "- CHECKMATE + ply \<le> score" and "\<bar>eval\<bar> \<le> MATE_BOUND"
  shows "good_state E st' \<and> st_data st' = st_data st"
proof -
  from assms(1) obtain tt t' where
    p: "TTPut (macros E) (st_tt st) hash depth score flag move ply eval = Inr (tt, t')"
    and st': "st' = st\<lparr>st_tt := t'\<rparr>"
    by (auto simp: ttPut_def split: sum.splits)
  from good_TTPut [OF p _ assms(3,4)] assms(2) have "good_table E t'"
    by (simp add: good_state_def)
  with assms(2) st' show ?thesis by (simp add: good_state_def)
qed

lemma kept_refl [simp]: "kept st st"
  by (simp add: kept_def)

lemma kept_trans: "kept st st1 \<Longrightarrow> kept st1 st2 \<Longrightarrow> kept st st2"
  by (auto simp: kept_def)

lemma in_range_0: "0 \<le> p \<Longrightarrow> p \<le> CHECKMATE \<Longrightarrow> in_range p 0"
  by (simp add: in_range_def)

lemma in_range_eval:
  "\<bar>e\<bar> \<le> MATE_BOUND \<Longrightarrow> 0 \<le> p \<Longrightarrow> p \<le> CHECKMATE - MATE_BOUND \<Longrightarrow> in_range p e"
  by (auto simp: in_range_def)

lemma in_range_neg: "in_range p (- r) = in_range p r"
  by (auto simp: in_range_def)

lemma in_range_Suc: "in_range (p + 1) r \<Longrightarrow> in_range p r"
  by (auto simp: in_range_def)

lemma play_sel [simp]:
  "sd_ply (st_data (play E m st)) = sd_ply (st_data st) + 1"
  "sd_skipMove (st_data (play E m st)) = sd_skipMove (st_data st)"
  "sd_evals (st_data (play E m st)) = sd_evals (st_data st)"
  by (simp_all add: play_def Let_def)

lemma unplay_sel [simp]:
  "sd_ply (st_data (unplay E m st)) = sd_ply (st_data st) - 1"
  "sd_skipMove (st_data (unplay E m st)) = sd_skipMove (st_data st)"
  "sd_evals (st_data (unplay E m st)) = sd_evals (st_data st)"
  by (simp_all add: unplay_def Let_def)

lemma poll_sel [simp]: "st_data (poll E st) = st_data st"
  by (simp add: poll_def)

lemma good_play:
  "good_state E st \<Longrightarrow> sd_ply (st_data st) + 1 \<le> MAX_DEPTH E \<Longrightarrow> good_state E (play E m st)"
  by (simp add: good_state_def)

lemma good_unplay:
  "good_state E st \<Longrightarrow> 1 \<le> sd_ply (st_data st) \<Longrightarrow> good_state E (unplay E m st)"
  by (simp add: good_state_def)

lemma kept_child:
  "kept st0 st \<Longrightarrow> kept (play E m st) st1 \<Longrightarrow> kept st0 (unplay E m' st1)"
  by (auto simp: kept_def)

lemma good_poll [simp]: "good_state E (poll E st) = good_state E st"
  by (simp add: good_state_def)

lemma kept_poll [simp]: "kept st0 (poll E st) = kept st0 st"
  by (simp add: kept_def)

lemma quiesce_entry_Return:
  assumes "quiesce_entry E st = Return (r, pv, st')" and "good_env E" and "good_state E st"
  shows "good_state E st' \<and> kept st st' \<and> in_range (sd_ply (st_data st)) r"
  using assms
  by (auto simp: quiesce_entry_def Let_def good_state_def good_env_def kept_def
      intro!: in_range_0 in_range_eval split: if_splits)

lemma quiesce_entry_Go:
  assumes "quiesce_entry E st = Go st1" and "good_state E st"
  shows "good_state E st1 \<and> kept st st1 \<and> sd_ply (st_data st) + 1 \<le> MAX_DEPTH E"
  using assms
  by (auto simp: quiesce_entry_def Let_def good_state_def kept_def split: if_splits)

lemma tt_cutoff_quiesce_Some:
  "tt_cutoff_quiesce E v p alpha beta = Some score \<Longrightarrow> score = TTScore v p"
  by (auto simp: tt_cutoff_quiesce_def Let_def split: if_splits)

lemma stand_pat_ok:
  assumes "stand_pat E v st = (eval, st')" and "good_env E" and "good_state E st"
    and "good_entry E v"
  shows "good_state E st' \<and> kept st st' \<and> in_range (sd_ply (st_data st)) eval"
proof -
  have p: "0 \<le> sd_ply (st_data st)" "sd_ply (st_data st) \<le> CHECKMATE - MATE_BOUND"
    using assms(2,3) by (auto simp: good_state_def good_env_def)
  have e: "\<bar>if v \<noteq> 0 then TTEval (macros E) v else Evaluate E (sd_board (st_data st))\<bar>
      \<le> MATE_BOUND"
    using assms(2,4) by (auto simp: good_env_def good_entry_def)
  from TTScore_in_range [OF assms(4) p] in_range_eval [OF e p] assms(1,3) e
  show ?thesis
    by (auto simp: stand_pat_def Let_def good_state_def kept_def split: if_splits)
qed

lemma quiesce_node_Return:
  assumes "quiesce_node E alpha beta st = Return (r, pv, st')" and "good_env E"
    and "good_state E st"
  shows "good_state E st' \<and> kept st st' \<and> in_range (sd_ply (st_data st)) r"
proof (cases "quiesce_entry E st")
  case (Return x)
  with assms(1) have "quiesce_entry E st = Return (r, pv, st')"
    by (simp add: quiesce_node_def)
  from quiesce_entry_Return [OF this assms(2,3)] show ?thesis .
next
  case (Go st1)
  note g = quiesce_entry_Go [OF Go assms(3)]
  let ?v = "TTProbe (st_tt st1) (zobrist (sd_board (st_data st1)))"
  from g have ge: "good_entry E ?v" by (simp add: good_state_def good_TTProbe)
  from g have ply: "sd_ply (st_data st1) = sd_ply (st_data st)" by (simp add: kept_def)
  have p: "0 \<le> sd_ply (st_data st)" "sd_ply (st_data st) \<le> CHECKMATE - MATE_BOUND"
    using assms(2,3) by (auto simp: good_state_def good_env_def)
  show ?thesis
  proof (cases "tt_cutoff_quiesce E ?v (sd_ply (st_data st1)) alpha beta")
    case (Some score)
    with Go assms(1) have "r = score" "st' = st1" by (simp_all add: quiesce_node_def Let_def)
    with tt_cutoff_quiesce_Some [OF Some] TTScore_in_range [OF ge p] g ply show ?thesis by simp
  next
    case None
    obtain eval st2 where sp: "stand_pat E ?v st1 = (eval, st2)"
      by (cases "stand_pat E ?v st1")
    from stand_pat_ok [OF sp assms(2) _ ge] g
    have s: "good_state E st2" "kept st1 st2" "in_range (sd_ply (st_data st1)) eval" by simp_all
    from None Go sp assms(1) have "r = eval" "st' = st2"
      by (simp_all add: quiesce_node_def Let_def split: if_splits)
    with s g ply show ?thesis by (auto intro: kept_trans)
  qed
qed

lemma quiesce_node_Go:
  assumes "quiesce_node E alpha beta st = Go (F, V)" and "good_env E" and "good_state E st"
  shows "q_inv E st V"
proof (cases "quiesce_entry E st")
  case (Return x)
  with assms(1) show ?thesis by (simp add: quiesce_node_def)
next
  case (Go st1)
  note g = quiesce_entry_Go [OF Go assms(3)]
  let ?v = "TTProbe (st_tt st1) (zobrist (sd_board (st_data st1)))"
  from g have ge: "good_entry E ?v" by (simp add: good_state_def good_TTProbe)
  from g have ply: "sd_ply (st_data st1) = sd_ply (st_data st)" by (simp add: kept_def)
  show ?thesis
  proof (cases "tt_cutoff_quiesce E ?v (sd_ply (st_data st1)) alpha beta")
    case (Some score)
    with Go assms(1) show ?thesis by (simp add: quiesce_node_def Let_def)
  next
    case None
    obtain eval st2 where sp: "stand_pat E ?v st1 = (eval, st2)"
      by (cases "stand_pat E ?v st1")
    from stand_pat_ok [OF sp assms(2) _ ge] g
    have s: "good_state E st2" "kept st1 st2" "in_range (sd_ply (st_data st1)) eval" by simp_all
    from None Go sp assms(1) have "qv_bestScore V = eval" "qv_st V = st2"
      by (auto simp: quiesce_node_def Let_def split: if_splits)
    with s g ply show ?thesis by (auto simp: q_inv_def intro: kept_trans)
  qed
qed

lemma quiesce_update_ok:
  assumes inv: "q_inv E st0 V" and st1: "good_state E st1"
    and k: "kept (play E move (qv_st V)) st1"
    and r: "in_range (sd_ply (st_data st0) + 1) score"
  shows "q_post E st0 (quiesce_update F (V\<lparr>qv_moveList := ml\<rparr>) move E (score, childPv, st1))"
proof -
  from inv have p: "sd_ply (st_data (qv_st V)) = sd_ply (st_data st0)"
    "0 \<le> sd_ply (st_data st0)" "kept st0 (qv_st V)"
    "in_range (sd_ply (st_data st0)) (qv_bestScore V)"
    "sd_ply (st_data st0) + 1 \<le> MAX_DEPTH E" "sd_ply (st_data st0) \<le> MAX_DEPTH E"
    by (auto simp: q_inv_def kept_def good_state_def)
  from k p have ply1: "sd_ply (st_data st1) = sd_ply (st_data st0) + 1" by (simp add: kept_def)
  with st1 p have g: "good_state E (unplay E move st1)" by (simp add: good_unplay)
  from kept_child [OF p(3) k] have kk: "kept st0 (unplay E move st1)" .
  from in_range_Suc [OF r] have r0: "in_range (sd_ply (st_data st0)) score" .
  have z: "in_range (sd_ply (st_data st0)) 0"
    using p st1 ply1 by (auto simp: in_range_def good_state_def CHECKMATE_def)
  from g kk r0 z p show ?thesis
    by (simp add: quiesce_update_def q_post_def q_inv_def Let_def)
qed

lemma quiesce_iter_ok:
  assumes it: "quiesce_iter recq E F V = Ret fl" and rec: "qsearch_ok E recq"
    and inv: "q_inv E st0 V"
  shows "q_post E st0 fl"
proof (cases "quiesce_filter E F (qv_alpha V) (sd_board (st_data (qv_st V)))
      (ml_moves (bubbleTopMove (qv_moveList V) (qv_i V)) (qv_i V))
      (ml_scores (bubbleTopMove (qv_moveList V) (qv_i V)) (qv_i V))")
  case Play
  let ?move = "ml_moves (bubbleTopMove (qv_moveList V) (qv_i V)) (qv_i V)"
  from it Play obtain score childPv st1 where
    c: "recq (- qf_beta F) (- qv_alpha V) (play E ?move (qv_st V)) = Ret (- score, childPv, st1)"
    and fl: "fl = quiesce_update F (V\<lparr>qv_moveList := bubbleTopMove (qv_moveList V) (qv_i V)\<rparr>)
       ?move E (score, childPv, st1)"
    by (auto simp: quiesce_iter_def Let_def obind_Ret negated_Ret)
  from inv have g: "good_state E (play E ?move (qv_st V))"
    and p: "sd_ply (st_data (qv_st V)) = sd_ply (st_data st0)"
    by (auto simp: q_inv_def kept_def intro: good_play)
  from rec g c have "good_state E st1 \<and> kept (play E ?move (qv_st V)) st1
      \<and> in_range (sd_ply (st_data (play E ?move (qv_st V)))) (- score)"
    unfolding qsearch_ok_def by blast
  with p have "good_state E st1" "kept (play E ?move (qv_st V)) st1"
    "in_range (sd_ply (st_data st0) + 1) score"
    by (simp_all add: in_range_neg)
  from quiesce_update_ok [OF inv this] fl show ?thesis by simp
next
  case Skip
  with it inv show ?thesis by (auto simp: quiesce_iter_def Let_def q_post_def q_inv_def)
next
  case Stop
  with it inv show ?thesis by (auto simp: quiesce_iter_def Let_def q_post_def q_inv_def)
next
  case AssertFails
  with it show ?thesis by (simp add: quiesce_iter_def Let_def)
qed

lemma negamax_entry_Return:
  assumes "negamax_entry E alpha beta st = Return (r, pv, st')" and "good_env E"
    and "good_state E st" and "window_ok (sd_ply (st_data st)) alpha beta"
  shows "good_state E st' \<and> kept st st' \<and> in_range (sd_ply (st_data st)) r"
proof -
  have p: "0 \<le> sd_ply (st_data st)" "sd_ply (st_data st) \<le> CHECKMATE - MATE_BOUND"
    "sd_ply (st_data st) \<le> CHECKMATE"
    using assms(2,3) by (auto simp: good_state_def good_env_def CHECKMATE_def MATE_BOUND_def)
  have e: "\<bar>Evaluate E b\<bar> \<le> MATE_BOUND" for b using assms(2) by (simp add: good_env_def)
  note r = in_range_0 [OF p(1,3)] in_range_eval [OF e p(1,2)]
  from assms(1) have st': "st' = st\<lparr>st_data := (st_data st)\<lparr>sd_nodes := sd_nodes (st_data st) + 1,
      sd_seldepth := max (sd_ply (st_data st)) (sd_seldepth (st_data st))\<rparr>\<rparr>"
    by (auto simp: negamax_entry_def Let_def split: if_splits)
  with assms(3) have g: "good_state E st'" "kept st st'"
    by (simp_all add: good_state_def kept_def)
  from assms(1,4) p r have "in_range (sd_ply (st_data st)) r"
    by (auto simp: negamax_entry_def Let_def window_ok_def in_range_def split: if_splits)
  with g show ?thesis by simp
qed

lemma negamax_entry_Go:
  assumes "negamax_entry E alpha beta st = Go (alpha1, beta1, st2)" and "good_env E"
    and "good_state E st" and "window_ok (sd_ply (st_data st)) alpha beta"
  shows "good_state E st2 \<and> sd_ply (st_data st2) = sd_ply (st_data st)
       \<and> sd_skipMove (st_data st2) = sd_skipMove (st_data st)
       \<and> - CHECKMATE + sd_ply (st_data st) \<le> alpha1 \<and> alpha1 < beta1
       \<and> beta1 \<le> CHECKMATE - sd_ply (st_data st)
       \<and> sd_ply (st_data st) + 1 \<le> MAX_DEPTH E"
proof -
  from assms(1) have st2: "st2 = poll E (st\<lparr>st_data := (st_data st)\<lparr>sd_nodes := sd_nodes (st_data st) + 1,
      sd_seldepth := max (sd_ply (st_data st)) (sd_seldepth (st_data st))\<rparr>\<rparr>)"
    by (auto simp: negamax_entry_def Let_def split: if_splits)
  with assms(3) have g: "good_state E st2" "sd_ply (st_data st2) = sd_ply (st_data st)"
    "sd_skipMove (st_data st2) = sd_skipMove (st_data st)"
    by (simp_all add: good_state_def)
  from assms(1,2,4) have "- CHECKMATE + sd_ply (st_data st) \<le> alpha1 \<and> alpha1 < beta1
       \<and> beta1 \<le> CHECKMATE - sd_ply (st_data st)
       \<and> sd_ply (st_data st) + 1 \<le> MAX_DEPTH E"
    by (auto simp: negamax_entry_def Let_def window_ok_def good_env_def split: if_splits)
  with g show ?thesis by simp
qed

lemma tt_cutoff_Some:
  "tt_cutoff E v depth p alpha beta = Some score \<Longrightarrow> score = TTScore v p"
  by (auto simp: tt_cutoff_def Let_def split: if_splits)

lemma negamax_eval_Ret:
  assumes "negamax_eval E v st = Ret (eval, improving, st')" and "good_env E"
    and "good_state E st"
  shows "good_state E st' \<and> sd_ply (st_data st') = sd_ply (st_data st)
       \<and> sd_skipMove (st_data st')
           = (sd_skipMove (st_data st))(sd_ply (st_data st) + 1 := 0)
       \<and> \<bar>eval\<bar> \<le> MATE_BOUND"
proof -
  have e: "\<bar>Evaluate E b\<bar> \<le> MATE_BOUND" for b using assms(2) by (simp add: good_env_def)
  from assms(1) have ev: "eval = Evaluate E (sd_board (st_data st))"
    by (auto simp: negamax_eval_def Let_def split: if_splits)
  from assms(1) have "st_tt st' = st_tt st"
    "sd_evals (st_data st') = (sd_evals (st_data st))(sd_ply (st_data st) := eval)"
    "sd_ply (st_data st') = sd_ply (st_data st)"
    "sd_skipMove (st_data st') = (sd_skipMove (st_data st))(sd_ply (st_data st) + 1 := 0)"
    by (auto simp: negamax_eval_def Let_def NULL_MOVE_def split: if_splits)
  with assms(3) e [of "sd_board (st_data st)"] ev show ?thesis
    by (simp add: good_state_def)
qed

lemma refine_eval_range:
  assumes "good_entry E v" and "\<bar>eval0\<bar> \<le> MATE_BOUND" and "0 \<le> p"
    and "p \<le> CHECKMATE - MATE_BOUND"
  shows "in_range p (refine_eval E v depth p eval0)"
  using TTScore_in_range [OF assms(1,3,4)] in_range_eval [OF assms(2,3,4)]
  by (simp add: refine_eval_def Let_def)

lemma negamax_prune_ok:
  assumes run: "negamax_prune rec E isPV skipMove ttValue beta depth eval0 st = Ret x"
    and rec: "search_ok E rec" and env: "good_env E" and g: "good_state E st"
    and v: "good_entry E ttValue" and e: "\<bar>eval0\<bar> \<le> MATE_BOUND"
    and b: "- CHECKMATE + sd_ply (st_data st) < beta" "beta \<le> CHECKMATE - sd_ply (st_data st)"
    and d: "sd_ply (st_data st) + 1 \<le> MAX_DEPTH E"
  shows "case x of
           Return (r, pv, st') \<Rightarrow>
             good_state E st' \<and> kept st st' \<and> in_range (sd_ply (st_data st)) r
         | Go (childPv, st') \<Rightarrow> good_state E st' \<and> kept st st'"
proof -
  let ?p = "sd_ply (st_data st)"
  let ?eval = "refine_eval E ttValue depth ?p eval0"
  have pr: "0 \<le> ?p" "?p \<le> CHECKMATE - MATE_BOUND" "?p \<le> CHECKMATE"
    using env g by (auto simp: good_state_def good_env_def CHECKMATE_def MATE_BOUND_def)
  have er: "in_range ?p ?eval"
    by (rule refine_eval_range [OF v e pr(1,2)])
  have z: "in_range ?p 0" by (rule in_range_0 [OF pr(1,3)])
  have br: "in_range ?p beta" using b by (simp add: in_range_def)
  let ?stc = "st\<lparr>st_data := (st_data st)\<lparr>sd_moves := (sd_moves (st_data st))(?p := NULL_MOVE),
                 sd_ply := ?p + 1, sd_board := nullMove E (sd_board (st_data st))\<rparr>\<rparr>"
  consider (plain) "x = Go ([], st)" | (futility) "x = Return (?eval, [], st)"
    | (null) dR score childPv st1 where
        "rec (- beta) (- beta + 1) dR ?stc = Ret (- score, childPv, st1)"
        "x = (if stopped st1 then Return (0, [], st1\<lparr>st_data := (st_data st1)\<lparr>sd_board := undoNullMove E (sd_board (st_data st1)),
                  sd_ply := sd_ply (st_data st1) - 1\<rparr>\<rparr>)
              else if score \<ge> beta then Return (beta, [], st1\<lparr>st_data := (st_data st1)\<lparr>sd_board := undoNullMove E (sd_board (st_data st1)),
                  sd_ply := sd_ply (st_data st1) - 1\<rparr>\<rparr>)
              else Go (childPv, st1\<lparr>st_data := (st_data st1)\<lparr>sd_board := undoNullMove E (sd_board (st_data st1)),
                  sd_ply := sd_ply (st_data st1) - 1\<rparr>\<rparr>))"
    using run unfolding negamax_prune_def Let_def
    by (auto simp: obind_Ret negated_Ret split: if_splits)
  then show ?thesis
  proof cases
    case plain
    with g show ?thesis by simp
  next
    case futility
    with g er show ?thesis by simp
  next
    case null
    let ?st2 = "st1\<lparr>st_data := (st_data st1)\<lparr>sd_board := undoNullMove E (sd_board (st_data st1)),
                  sd_ply := sd_ply (st_data st1) - 1\<rparr>\<rparr>"
    have gc: "good_state E ?stc" using g d pr by (simp add: good_state_def)
    have w: "window_ok (sd_ply (st_data ?stc)) (- beta) (- beta + 1)"
      using b pr by (simp add: window_ok_def)
    from rec gc w null(1) have "good_state E st1 \<and> kept ?stc st1"
      unfolding search_ok_def by blast
    then have "good_state E ?st2 \<and> kept st ?st2"
      using pr by (auto simp: good_state_def kept_def)
    with null(2) z br show ?thesis by (auto simp: Let_def split: if_splits)
  qed
qed

lemma search_ok_post:
  "search_ok E rec \<Longrightarrow> good_state E st \<Longrightarrow> window_ok (sd_ply (st_data st)) a b \<Longrightarrow>
   rec a b d st = Ret res \<Longrightarrow> frame_post E st res"
  unfolding search_ok_def frame_post_def by (cases res) blast

lemma negamax_node_cases:
  assumes "negamax_node rec E alpha beta depth st = Ret x"
  obtains (entry) r where "negamax_entry E alpha beta st = Return r" "x = Return r"
  | (cutoff) alpha1 beta1 st2 score where
      "negamax_entry E alpha beta st = Go (alpha1, beta1, st2)"
      "tt_cutoff E (if sd_skipMove (st_data st) (sd_ply (st_data st)) \<noteq> 0 then NO_ENTRY
                    else TTProbe (st_tt st2) (zobrist (sd_board (st_data st2))))
         depth (sd_ply (st_data st2)) alpha1 beta1 = Some score"
      "x = Return (score, [], st2)"
  | (prune) alpha1 beta1 st2 eval improving st3 r where
      "negamax_entry E alpha beta st = Go (alpha1, beta1, st2)"
      "negamax_eval E (if sd_skipMove (st_data st) (sd_ply (st_data st)) \<noteq> 0 then NO_ENTRY
                    else TTProbe (st_tt st2) (zobrist (sd_board (st_data st2)))) st2
         = Ret (eval, improving, st3)"
      "negamax_prune rec E (beta - alpha \<noteq> 1) (sd_skipMove (st_data st) (sd_ply (st_data st)))
         (if sd_skipMove (st_data st) (sd_ply (st_data st)) \<noteq> 0 then NO_ENTRY
                    else TTProbe (st_tt st2) (zobrist (sd_board (st_data st2))))
         beta1 depth eval st3 = Ret (Return r)"
      "x = Return r"
  | (go) F V where "x = Go (F, V)"
  using assms unfolding negamax_node_def Let_def
  by (auto simp: obind_def
      split: step.splits option.splits outcome.splits if_splits prod.splits)

lemma good_frame_ttValue:
  "good_state E st2 \<Longrightarrow>
   good_entry E (if sk \<noteq> 0 then NO_ENTRY else TTProbe (st_tt st2) h)"
  by (simp add: NO_ENTRY_def good_state_def good_TTProbe)

lemma negamax_node_Return_ok:
  assumes node: "negamax_node rec E alpha beta depth st = Ret (Return res)"
    and rec: "search_ok E rec" and env: "good_env E" and g: "good_state E st"
    and w: "window_ok (sd_ply (st_data st)) alpha beta"
  shows "frame_post E st res"
  using node
proof (cases rule: negamax_node_cases)
  case (entry r)
  then have "negamax_entry E alpha beta st = Return res" by simp
  then show ?thesis
    using negamax_entry_Return [OF _ env g w, of "fst res" "fst (snd res)" "snd (snd res)"]
    by (auto simp: frame_post_def split: prod.splits)
next
  case (cutoff alpha1 beta1 st2 score)
  note e = negamax_entry_Go [OF cutoff(1) env g w]
  have p: "0 \<le> sd_ply (st_data st)" "sd_ply (st_data st) \<le> CHECKMATE - MATE_BOUND"
    using env g by (auto simp: good_state_def good_env_def)
  from e have ge: "good_entry E (if sd_skipMove (st_data st) (sd_ply (st_data st)) \<noteq> 0 then NO_ENTRY
                    else TTProbe (st_tt st2) (zobrist (sd_board (st_data st2))))"
    by (intro good_frame_ttValue) simp
  from tt_cutoff_Some [OF cutoff(2)] TTScore_in_range [OF ge p] e
  have "in_range (sd_ply (st_data st)) score" by simp
  with e cutoff(3) show ?thesis by (simp add: frame_post_def kept_def)
next
  case (prune alpha1 beta1 st2 eval improving st3 r)
  note e = negamax_entry_Go [OF prune(1) env g w]
  from e have ge: "good_entry E (if sd_skipMove (st_data st) (sd_ply (st_data st)) \<noteq> 0 then NO_ENTRY
                    else TTProbe (st_tt st2) (zobrist (sd_board (st_data st2))))"
    by (intro good_frame_ttValue) simp
  from e have g2: "good_state E st2" by simp
  note v = negamax_eval_Ret [OF prune(2) env g2]
  from v have g3: "good_state E st3" and ev: "\<bar>eval\<bar> \<le> MATE_BOUND" by simp_all
  from v e have p3: "sd_ply (st_data st3) = sd_ply (st_data st)" by simp
  from e p3 have b: "- CHECKMATE + sd_ply (st_data st3) < beta1"
    "beta1 \<le> CHECKMATE - sd_ply (st_data st3)" "sd_ply (st_data st3) + 1 \<le> MAX_DEPTH E"
    by simp_all
  from negamax_prune_ok [OF prune(3) rec env g3 ge ev b] prune(4)
  have "case res of (r, pv, st') \<Rightarrow> good_state E st' \<and> kept st3 st'
      \<and> in_range (sd_ply (st_data st3)) r"
    by (simp split: prod.splits)
  moreover from v e have "kept st st3" by (simp add: kept_def)
  ultimately show ?thesis using p3
    by (auto simp: frame_post_def intro: kept_trans split: prod.splits)
next
  case (go F V)
  with node show ?thesis by simp
qed

lemma negamax_node_Go_ok:
  assumes node: "negamax_node rec E alpha beta depth st = Ret (Go (F, V))"
    and rec: "search_ok E rec" and env: "good_env E" and g: "good_state E st"
    and w: "window_ok (sd_ply (st_data st)) alpha beta"
  shows "loop_inv E st F V \<and> best_ok st F V"
  using node
proof (cases rule: negamax_node_Go)
  case (1 alpha1 beta1 st2 ttValue eval improving st3 childPv st4)
  note e = negamax_entry_Go [OF 1(1) env g w]
  from e 1(2) have ge: "good_entry E ttValue"
    by (simp add: good_frame_ttValue)
  from e have g2: "good_state E st2" by simp
  note v = negamax_eval_Ret [OF 1(4) env g2]
  from v have g3: "good_state E st3" and ev: "\<bar>eval\<bar> \<le> MATE_BOUND" by simp_all
  from v e have p3: "sd_ply (st_data st3) = sd_ply (st_data st)" by simp
  from e p3 have b: "- CHECKMATE + sd_ply (st_data st3) < beta1"
    "beta1 \<le> CHECKMATE - sd_ply (st_data st3)" "sd_ply (st_data st3) + 1 \<le> MAX_DEPTH E"
    by simp_all
  from negamax_prune_ok [OF 1(5) rec env g3 ge ev b]
  have g4: "good_state E st4" and k4: "kept st3 st4" by simp_all
  from v e have k3: "kept st st3" and s3: "sd_skipMove (st_data st3) (sd_ply (st_data st) + 1) = 0"
    by (simp_all add: kept_def)
  from k4 s3 p3 have s4: "sd_skipMove (st_data st4) (sd_ply (st_data st) + 1) = 0"
    by (simp add: kept_def)
  from env have "list_nonnull (generateMoves E (st_data st4))"
    by (simp add: good_env_def moves_nonnull_def)
  with g4 kept_trans [OF k3 k4] s4 e 1(6,7) show ?thesis
    by (simp add: loop_inv_def best_ok_def)
qed

lemma addBF_fold_sel:
  "sd_ply (fold (\<lambda>j d'. if c j then d' else addBFHeuristic E d' (mv j) depth) js d) = sd_ply d
   \<and> sd_evals (fold (\<lambda>j d'. if c j then d' else addBFHeuristic E d' (mv j) depth) js d) = sd_evals d
   \<and> sd_skipMove (fold (\<lambda>j d'. if c j then d' else addBFHeuristic E d' (mv j) depth) js d)
       = sd_skipMove d"
  by (induction js arbitrary: d) (simp_all add: addBFHeuristic_def Let_def)

lemma cutoff_heuristics_sel [simp]:
  "sd_ply (cutoff_heuristics E depth ml i move d) = sd_ply d"
  "sd_evals (cutoff_heuristics E depth ml i move d) = sd_evals d"
  "sd_skipMove (cutoff_heuristics E depth ml i move d) = sd_skipMove d"
  unfolding cutoff_heuristics_def Let_def
  by (simp_all add: addBF_fold_sel addKiller_def addCounter_def addHistoryHeuristic_def Let_def)

lemma iter_singular_ok:
  assumes run: "iter_singular rec E F move pv st = Ret x"
    and rec: "search_ok E rec" and env: "good_env E" and g: "good_state E st"
    and sk: "nf_skipMove F = sd_skipMove (st_data st) (sd_ply (st_data st))"
    and root: "nf_isRoot F = (sd_ply (st_data st) = 0)"
    and b: "- CHECKMATE + sd_ply (st_data st) < nf_beta F"
  shows "case x of
           Return (r, pv', st') \<Rightarrow>
             good_state E st' \<and> kept st st' \<and> in_range (sd_ply (st_data st)) r
         | Go (se, pv', st') \<Rightarrow> good_state E st' \<and> kept st st'"
proof (cases "singular_applies E F (sd_ply (st_data st)) move")
  case False
  with run have "x = Go (False, pv, st)" by (auto simp: iter_singular_def Let_def)
  with g show ?thesis by simp
next
  case True
  let ?p = "sd_ply (st_data st)"
  let ?sBeta = "max (TTScore (nf_ttValue F) ?p - nf_depth F * 2) (- CHECKMATE)"
  let ?st1 = "st\<lparr>st_data := (st_data st)\<lparr>sd_skipMove := (sd_skipMove (st_data st))(?p := move)\<rparr>\<rparr>"
  have pr: "0 \<le> ?p" "?p \<le> CHECKMATE - MATE_BOUND"
    using env g by (auto simp: good_state_def good_env_def)
  from True have a: "nf_depth F \<ge> 8" "nf_skipMove F = 0" "\<not> nf_isRoot F"
    "\<bar>TTScore (nf_ttValue F) ?p\<bar> < MATE_BOUND"
    by (simp_all add: singular_applies_def)
  from a pr have sb: "?sBeta \<le> CHECKMATE - ?p" "- CHECKMATE \<le> ?sBeta"
    by (auto simp: CHECKMATE_def MATE_BOUND_def)
  from run True obtain score pv1 st2 where
    c: "rec (?sBeta - 1) ?sBeta (cdiv (nf_depth F) 2 - 1) ?st1 = Ret (score, pv1, st2)"
    and x: "x = (if score < ?sBeta
                 then Go (True, pv1, st2\<lparr>st_data := (st_data st2)\<lparr>sd_skipMove :=
                        (sd_skipMove (st_data st2))(sd_ply (st_data st2) := NULL_MOVE)\<rparr>\<rparr>)
                 else if ?sBeta \<ge> nf_beta F
                 then Return (?sBeta, pv1, st2\<lparr>st_data := (st_data st2)\<lparr>sd_skipMove :=
                        (sd_skipMove (st_data st2))(sd_ply (st_data st2) := NULL_MOVE)\<rparr>\<rparr>)
                 else Go (False, pv1, st2\<lparr>st_data := (st_data st2)\<lparr>sd_skipMove :=
                        (sd_skipMove (st_data st2))(sd_ply (st_data st2) := NULL_MOVE)\<rparr>\<rparr>))"
    unfolding iter_singular_def Let_def by (auto simp: obind_Ret split: if_splits)
  let ?st3 = "st2\<lparr>st_data := (st_data st2)\<lparr>sd_skipMove :=
                        (sd_skipMove (st_data st2))(sd_ply (st_data st2) := NULL_MOVE)\<rparr>\<rparr>"
  have g1: "good_state E ?st1" using g by (simp add: good_state_def)
  have w: "window_ok (sd_ply (st_data ?st1)) (?sBeta - 1) ?sBeta"
  proof -
    from a root have "sd_ply (st_data ?st1) \<noteq> 0" by simp
    moreover from sb(1) have "?sBeta - 1 \<le> CHECKMATE - sd_ply (st_data ?st1)"
      by (auto simp: max_def split: if_splits)
    ultimately show ?thesis unfolding window_ok_def by (simp only: if_False)
  qed
  from rec g1 w c have "good_state E st2 \<and> kept ?st1 st2"
    unfolding search_ok_def by blast
  with a sk have g3: "good_state E ?st3 \<and> kept st ?st3"
    by (auto simp: good_state_def kept_def NULL_MOVE_def)
  have "?sBeta \<ge> nf_beta F \<Longrightarrow> in_range ?p ?sBeta"
    using b sb by (simp add: in_range_def)
  with x g3 show ?thesis by (auto split: if_splits)
qed

lemma child_call_ok:
  assumes rec: "search_ok E rec" and g: "good_state E s \<and> kept st1 s"
    and p1: "sd_ply (st_data st1) = p + 1" and p0: "0 \<le> p"
    and sk: "sd_skipMove (st_data st1) (p + 1) = 0"
    and a: "a \<le> CHECKMATE - (p + 1)"
    and c: "negated (rec a b d s) = Ret (score, pv, s')"
  shows "(good_state E s' \<and> kept st1 s') \<and> in_range (p + 1) score"
proof -
  from c have c': "rec a b d s = Ret (- score, pv, s')" by (simp add: negated_Ret)
  from g p1 have ps: "sd_ply (st_data s) = p + 1" by (simp add: kept_def)
  with p0 a have w: "window_ok (sd_ply (st_data s)) a b" by (simp add: window_ok_def)
  from g p1 sk have s0: "sd_skipMove (st_data s) (sd_ply (st_data s)) = 0"
    by (simp add: kept_def)
  from rec g w c' s0 have "good_state E s' \<and> kept s s' \<and> in_range (sd_ply (st_data s)) (- score)"
    unfolding search_ok_def by blast
  with g ps show ?thesis by (auto simp: in_range_neg intro: kept_trans)
qed

lemma ladder_ok:
  assumes run: "obind (if ca then negated (rec xa ya da st1) else Ret (sz, pv0, st1))
           (\<lambda>(score1, pv1, st2).
         obind (if cb score1 then negated (rec xb yb db st2) else Ret (score1, pv1, st2))
           (\<lambda>(score2, pv2, st3).
            if cc score2 then negated (rec xc yc dc st3) else Ret (score2, pv2, st3)))
         = Ret (score, pv, st4)"
    and call: "\<And>a b d s sc pv s'. Q s \<Longrightarrow> a \<le> A \<Longrightarrow> negated (rec a b d s) = Ret (sc, pv, s')
                 \<Longrightarrow> Q s' \<and> R sc"
    and a: "xa \<le> A" "xb \<le> A" "xc \<le> A"
    and one: "\<not> ca \<Longrightarrow> \<not> cb sz \<Longrightarrow> cc sz"
    and q: "Q st1"
  shows "Q st4 \<and> R score"
proof -
  from run obtain score1 pv1 st2 score2 pv2 st3 where
    s1: "(if ca then negated (rec xa ya da st1) else Ret (sz, pv0, st1)) = Ret (score1, pv1, st2)"
    and s2: "(if cb score1 then negated (rec xb yb db st2) else Ret (score1, pv1, st2))
              = Ret (score2, pv2, st3)"
    and s3: "(if cc score2 then negated (rec xc yc dc st3) else Ret (score2, pv2, st3))
              = Ret (score, pv, st4)"
    by (auto simp: obind_Ret)
  have q2: "Q st2 \<and> (R score1 \<or> (\<not> ca \<and> score1 = sz))"
  proof (cases ca)
    case True
    with s1 call [OF q a(1)] show ?thesis by simp
  next
    case False
    with s1 q show ?thesis by simp
  qed
  have q3: "Q st3 \<and> (R score2 \<or> (\<not> ca \<and> \<not> cb sz \<and> score2 = sz))"
  proof (cases "cb score1")
    case True
    with s2 call [OF _ a(2)] q2 show ?thesis by auto
  next
    case False
    with s2 q2 show ?thesis by auto
  qed
  show ?thesis
  proof (cases "cc score2")
    case True
    with s3 call [OF _ a(3)] q3 show ?thesis by auto
  next
    case False
    with s3 q3 one show ?thesis by auto
  qed
qed

lemma search_ladder_ok:
  assumes run: "search_ladder rec E F V move se = Ret (score, childPv, st4)"
    and rec: "search_ok E rec" and g: "good_state E (nv_st V)"
    and d: "sd_ply (st_data (nv_st V)) + 1 \<le> MAX_DEPTH E"
    and sk: "sd_skipMove (st_data (nv_st V)) (sd_ply (st_data (nv_st V)) + 1) = 0"
    and a: "- CHECKMATE + sd_ply (st_data (nv_st V)) \<le> nv_alpha V" "nv_alpha V < nf_beta F"
    and n: "0 \<le> nv_numMoves V"
  shows "(good_state E st4 \<and> kept (play E move (nv_st V)) st4)
       \<and> in_range (sd_ply (st_data (nv_st V)) + 1) score"
proof -
  let ?p = "sd_ply (st_data (nv_st V))"
  let ?st1 = "play E move (nv_st V)"
  have p0: "0 \<le> ?p" using g by (simp add: good_state_def)
  have q: "good_state E ?st1 \<and> kept ?st1 ?st1" using g d by (simp add: good_play)
  have p1: "sd_ply (st_data ?st1) = ?p + 1" by simp
  have sk1: "sd_skipMove (st_data ?st1) (?p + 1) = 0" using sk by simp
  note call = child_call_ok [OF rec _ p1 p0 sk1]
  let ?R = "lmr_R E F (nv_numMoves V + 1) (is_tactical E move) (ml_scores (nv_moveList V) (nv_i V))"
  let ?nd = "if se \<or> checkers (sd_board (st_data ?st1)) \<noteq> 0 then nf_depth F + 1 else nf_depth F"
  let ?c1 = "?R \<noteq> 1"
  let ?c2 = "\<lambda>score1. (?R \<noteq> 1 \<and> score1 > nv_alpha V)
                \<or> (?R = 1 \<and> (\<not> nf_isPV F \<or> nv_numMoves V + 1 > 1))"
  let ?c3 = "\<lambda>score2. nf_isPV F \<and> (nv_numMoves V + 1 = 1
                \<or> (score2 > nv_alpha V \<and> (nf_isRoot F \<or> score2 < nf_beta F)))"
  have run': "obind (if ?c1 then negated (rec (- nv_alpha V - 1) (- nv_alpha V) (?nd - ?R) ?st1)
                     else Ret (nv_alpha V + 1, nv_childPv V, ?st1))
           (\<lambda>(score1, pv1, st2).
         obind (if ?c2 score1 then negated (rec (- nv_alpha V - 1) (- nv_alpha V) (?nd - 1) st2)
                else Ret (score1, pv1, st2))
           (\<lambda>(score2, pv2, st3).
            if ?c3 score2 then negated (rec (- nf_beta F) (- nv_alpha V) (?nd - 1) st3)
            else Ret (score2, pv2, st3)))
         = Ret (score, childPv, st4)"
    using run unfolding search_ladder_def Let_def .
  show ?thesis
  proof (rule ladder_ok [where ca = ?c1 and cb = ?c2 and cc = ?c3 and rec = rec
        and Q = "\<lambda>s. good_state E s \<and> kept ?st1 s" and A = "CHECKMATE - (?p + 1)"
        and R = "in_range (?p + 1)" and sz = "nv_alpha V + 1", OF run'])
    show "\<And>a b d s sc pv s'. good_state E s \<and> kept ?st1 s \<Longrightarrow> a \<le> CHECKMATE - (?p + 1)
        \<Longrightarrow> negated (rec a b d s) = Ret (sc, pv, s')
        \<Longrightarrow> (good_state E s' \<and> kept ?st1 s') \<and> in_range (?p + 1) sc"
      by (rule call)
    show "- nv_alpha V - 1 \<le> CHECKMATE - (?p + 1)" using a by simp
    then show "- nv_alpha V - 1 \<le> CHECKMATE - (?p + 1)" .
    show "- nf_beta F \<le> CHECKMATE - (?p + 1)" using a by simp
    show "good_state E ?st1 \<and> kept ?st1 ?st1" by (rule q)
    show "?c3 (nv_alpha V + 1)" if "\<not> ?c1" and "\<not> ?c2 (nv_alpha V + 1)"
      using that n by auto
  qed
qed

lemma iter_update_ok:
  assumes inv: "loop_inv E st0 F V" and bo: "best_ok st0 F V" and env: "good_env E"
    and g4: "good_state E st4" and k4: "kept (play E move (nv_st V)) st4"
    and r: "in_range (sd_ply (st_data st0) + 1) score"
  shows "iter_post E st0 F (iter_update E F V move (score, childPv, st4))"
proof -
  let ?p = "sd_ply (st_data st0)"
  let ?st5 = "unplay E move st4"
  from inv have i: "good_state E (nv_st V)" "kept st0 (nv_st V)"
    "sd_skipMove (st_data (nv_st V)) (?p + 1) = 0" "?p + 1 \<le> MAX_DEPTH E"
    "nf_skipMove F = sd_skipMove (st_data st0) ?p" "nf_isRoot F = (?p = 0)"
    "- CHECKMATE + ?p \<le> nv_alpha V" "nv_alpha V < nf_beta F" "nf_beta F \<le> CHECKMATE - ?p"
    "0 \<le> nv_numMoves V" "list_nonnull (nv_moveList V)"
    by (simp_all add: loop_inv_def)
  from i have pv: "sd_ply (st_data (nv_st V)) = ?p" and p0: "0 \<le> ?p"
    by (simp_all add: kept_def good_state_def)
  from k4 pv have p4: "sd_ply (st_data st4) = ?p + 1" by (simp add: kept_def)
  from g4 p4 p0 have g5: "good_state E ?st5" by (simp add: good_unplay)
  from kept_child [OF i(2) k4] have k5: "kept st0 ?st5" .
  from k4 pv i(3) have s5: "sd_skipMove (st_data ?st5) (?p + 1) = 0" by (simp add: kept_def)
  from g4 p4 env have z: "in_range ?p 0"
    by (auto simp: good_state_def good_env_def in_range_def CHECKMATE_def MATE_BOUND_def)
  from r have r0: "- CHECKMATE + ?p \<le> score" "- CHECKMATE < score"
    using p0 by (auto simp: in_range_def)
  have g6: "good_state E (?st5\<lparr>st_data := cutoff_heuristics E dd ml ii move (st_data ?st5)\<rparr>)"
    "kept st0 (?st5\<lparr>st_data := cutoff_heuristics E dd ml ii move (st_data ?st5)\<rparr>)" for dd ml ii
    using g5 k5 by (simp_all add: good_state_def kept_def)
  show ?thesis
  proof (cases "stopped ?st5")
    case True
    with g5 k5 z show ?thesis
      by (simp add: iter_update_def Let_def iter_post_def frame_post_def)
  next
    case ns: False
    show ?thesis
    proof (cases "score > nv_bestScore V")
      case False
      with bo r0 have "in_range (?p + 1) (nv_bestScore V)" by (auto simp: best_ok_def)
      with False ns g5 k5 s5 i show ?thesis
        by (simp add: iter_update_def Let_def iter_post_def loop_inv_def best_done_def)
    next
      case True
      with ns g5 k5 s5 i r r0 g6 show ?thesis
        by (auto simp: iter_update_def Let_def iter_post_def loop_inv_def best_done_def)
    qed
  qed
qed

lemma loop_inv_cong:
  "loop_inv E st0 F V \<Longrightarrow> good_state E st \<Longrightarrow> kept st0 st \<Longrightarrow>
   sd_skipMove (st_data st) (sd_ply (st_data st0) + 1) = 0 \<Longrightarrow> list_nonnull ml \<Longrightarrow>
   loop_inv E st0 F (V\<lparr>nv_moveList := ml, nv_pv := pv, nv_st := st\<rparr>)"
  by (simp add: loop_inv_def)

lemma negamax_iter_ok:
  assumes run: "negamax_iter rec E F V = Ret fl"
    and rec: "search_ok E rec" and env: "good_env E"
    and inv: "loop_inv E st0 F V" and bo: "best_ok st0 F V"
    and i: "nv_i V < ml_count (nv_moveList V)"
  shows "iter_post E st0 F fl"
proof -
  let ?p = "sd_ply (st_data st0)"
  let ?ml = "bubbleTopMove (nv_moveList V) (nv_i V)"
  let ?move = "ml_moves ?ml (nv_i V)"
  let ?V0 = "V\<lparr>nv_moveList := ?ml\<rparr>"
  from inv have l: "list_nonnull (nv_moveList V)" by (simp add: loop_inv_def)
  from bubbleTopMove_nonnull [OF l i] have l0: "list_nonnull ?ml" .
  with i have mv: "?move \<noteq> 0" by (simp add: list_nonnull_def NULL_MOVE_def)
  from inv l0 have inv0: "loop_inv E st0 F ?V0" by (simp add: loop_inv_def)
  from inv have f: "good_state E (nv_st V)" "kept st0 (nv_st V)"
    "sd_skipMove (st_data (nv_st V)) (?p + 1) = 0" "?p + 1 \<le> MAX_DEPTH E"
    "nf_skipMove F = sd_skipMove (st_data st0) ?p" "nf_isRoot F = (?p = 0)"
    "- CHECKMATE + ?p \<le> nv_alpha V" "nv_alpha V < nf_beta F" "nf_beta F \<le> CHECKMATE - ?p"
    "0 \<le> nv_numMoves V"
    by (simp_all add: loop_inv_def)
  from f have pv: "sd_ply (st_data (nv_st V)) = ?p" by (simp add: kept_def)
  show ?thesis
  proof (cases "nf_skipMove F = ?move")
    case True
    with run have fl: "fl = Next ?V0" by (simp add: negamax_iter_def Let_def)
    from True mv bo have "best_done st0 F ?V0" by (auto simp: best_ok_def best_done_def)
    with fl inv0 show ?thesis by (simp add: iter_post_def)
  next
    case ns: False
    show ?thesis
    proof (cases "pruned E F ?V0 ?move")
      case True
      with run ns have fl: "fl = Next ?V0" by (simp add: negamax_iter_def Let_def)
      from True have "nv_bestScore V > - MATE_BOUND" by (simp add: pruned_def Let_def)
      with bo have "best_done st0 F ?V0"
        by (auto simp: best_ok_def best_done_def CHECKMATE_def MATE_BOUND_def)
      with fl inv0 show ?thesis by (simp add: iter_post_def)
    next
      case np: False
      from run ns np obtain x where
        sing: "iter_singular rec E F ?move (nv_pv V) (nv_st V) = Ret x"
        and rest: "(case x of Return r \<Rightarrow> Ret (Leave r)
                    | Go (singularExtension, pv1, st1) \<Rightarrow>
                        iter_search rec E F (?V0\<lparr>nv_pv := pv1, nv_st := st1\<rparr>) ?move
                          singularExtension) = Ret fl"
        by (auto simp: negamax_iter_def Let_def obind_Ret)
      have sk: "nf_skipMove F = sd_skipMove (st_data (nv_st V)) (sd_ply (st_data (nv_st V)))"
        using f pv by (simp add: kept_def)
      have rt: "nf_isRoot F = (sd_ply (st_data (nv_st V)) = 0)" using f pv by simp
      have b: "- CHECKMATE + sd_ply (st_data (nv_st V)) < nf_beta F" using f pv by simp
      note s = iter_singular_ok [OF sing rec env f(1) sk rt b]
      show ?thesis
      proof (cases x)
        case (Return res)
        with rest have fl: "fl = Leave res" by simp
        from s Return pv f(2) show ?thesis
          by (auto simp: fl iter_post_def frame_post_def intro: kept_trans split: prod.splits)
      next
        case (Go y)
        obtain se pv1 st1 where y: "y = (se, pv1, st1)" by (cases y)
        from s Go y have g1: "good_state E st1" and k1: "kept (nv_st V) st1" by simp_all
        from kept_trans [OF f(2) k1] have k01: "kept st0 st1" .
        from k1 f(3) pv have s1: "sd_skipMove (st_data st1) (?p + 1) = 0"
          by (simp add: kept_def)
        let ?V1 = "?V0\<lparr>nv_pv := pv1, nv_st := st1\<rparr>"
        from loop_inv_cong [OF inv g1 k01 s1 l0, of pv1] have inv1: "loop_inv E st0 F ?V1" by simp
        from bo have bo1: "best_ok st0 F ?V1" by (simp add: best_ok_def)
        from k01 have p1: "sd_ply (st_data st1) = ?p" by (simp add: kept_def)
        from rest Go y obtain score childPv st4 where
          lad: "search_ladder rec E F ?V1 ?move se = Ret (score, childPv, st4)"
          and fl: "fl = iter_update E F ?V1 ?move (score, childPv, st4)"
          by (auto simp: iter_search_def obind_Ret)
        have "(good_state E st4 \<and> kept (play E ?move (nv_st ?V1)) st4)
          \<and> in_range (sd_ply (st_data (nv_st ?V1)) + 1) score"
          by (rule search_ladder_ok [OF lad rec]) (use g1 p1 s1 f in simp_all)
        with p1 have "good_state E st4" "kept (play E ?move (nv_st ?V1)) st4"
          "in_range (?p + 1) score" by simp_all
        from iter_update_ok [OF inv1 bo1 env this] fl show ?thesis by simp
      qed
    qed
  qed
qed

lemma negamax_finish_ok:
  assumes run: "negamax_finish E F V = Ret res"
    and env: "good_env E" and g: "good_state E (nv_st V)" and k: "kept st0 (nv_st V)"
    and sk: "nf_skipMove F = sd_skipMove (st_data st0) (sd_ply (st_data st0))"
    and b: "ml_count (nv_moveList V) = 0 \<or> best_done st0 F V"
  shows "frame_post E st0 res"
proof -
  let ?p = "sd_ply (st_data st0)"
  from k have pv: "sd_ply (st_data (nv_st V)) = ?p" by (simp add: kept_def)
  from g env pv have p: "0 \<le> ?p" "?p \<le> CHECKMATE - MATE_BOUND" "?p \<le> CHECKMATE"
    by (auto simp: good_state_def good_env_def CHECKMATE_def MATE_BOUND_def)
  show ?thesis
  proof (cases "ml_count (nv_moveList V) = 0")
    case True
    with run have "res = ((if checkers (sd_board (st_data (nv_st V))) \<noteq> 0
        then - CHECKMATE + ?p else 0), nv_pv V, nv_st V)"
      using pv by (auto simp: negamax_finish_def Let_def)
    with g k p show ?thesis by (simp add: frame_post_def in_range_def)
  next
    case nz: False
    with b have bd: "best_done st0 F V" by simp
    show ?thesis
    proof (cases "nf_skipMove F = 0")
      case False
      with run nz have "res = (nv_bestScore V, nv_pv V, nv_st V)"
        by (auto simp: negamax_finish_def Let_def obind_Ret split: if_splits)
      with g k False sk show ?thesis by (simp add: frame_post_def)
    next
      case True
      with bd have r: "in_range (?p + 1) (nv_bestScore V)" by (simp add: best_done_def)
      from run nz True obtain st1 where
        put: "ttPut E (nv_st V) (zobrist (sd_board (st_data (nv_st V)))) (nf_depth F)
                (nv_bestScore V) (node_bound (nv_bestScore V) (nf_beta F) (nf_a0 F))
                (nv_bestMove V) ?p (sd_evals (st_data (nv_st V)) ?p) = Ret st1"
        and res: "res = (nv_bestScore V, nv_pv V, st1)"
        using pv by (auto simp: negamax_finish_def Let_def obind_Ret split: if_splits)
      have "good_state E st1 \<and> st_data st1 = st_data (nv_st V)"
        by (rule good_ttPut [OF put g]) (use r g in \<open>auto simp: in_range_def good_state_def\<close>)
      with k have "good_state E st1" "kept st0 st1" by (simp_all add: kept_def)
      with res in_range_Suc [OF r] show ?thesis by (simp add: frame_post_def)
    qed
  qed
qed

lemma search_okI:
  "(\<And>a b d st res. good_state E st \<Longrightarrow> window_ok (sd_ply (st_data st)) a b \<Longrightarrow>
      rec a b d st = Ret res \<Longrightarrow> frame_post E st res) \<Longrightarrow> search_ok E rec"
  unfolding search_ok_def frame_post_def by fastforce

lemma negamax_body_ok:
  assumes run: "negamax_body rec recq loop E alpha beta depth st = Ret res"
    and rec: "search_ok E rec" and recq: "qsearch_ok E recq"
    and loop: "\<And>F V fl. loop_inv E st F V \<Longrightarrow> best_ok st F V \<Longrightarrow> loop F V = Ret fl
                 \<Longrightarrow> loop_post E st F fl"
    and env: "good_env E" and g: "good_state E st"
    and w: "window_ok (sd_ply (st_data st)) alpha beta"
  shows "frame_post E st res"
proof (cases "depth = 0")
  case True
  with run have "recq alpha beta st = Ret res" by (simp add: negamax_body_def)
  with recq g show ?thesis unfolding qsearch_ok_def frame_post_def by (cases res) blast
next
  case False
  with run obtain x where node: "negamax_node rec E alpha beta depth st = Ret x"
    and rest: "(case x of Return r \<Rightarrow> Ret r
                | Go (F, V) \<Rightarrow> obind (loop F V) (\<lambda>fl. case fl of Leave r \<Rightarrow> Ret r
                      | Break V' \<Rightarrow> negamax_finish E F V'
                      | Next V' \<Rightarrow> negamax_finish E F V')) = Ret res"
    by (auto simp: negamax_body_def obind_Ret)
  show ?thesis
  proof (cases x)
    case (Return r)
    with rest have "r = res" by simp
    with node Return negamax_node_Return_ok [OF _ rec env g w] show ?thesis by simp
  next
    case (Go y)
    obtain F V where y: "y = (F, V)" by (cases y)
    from node Go y have n: "negamax_node rec E alpha beta depth st = Ret (Go (F, V))" by simp
    note i = negamax_node_Go_ok [OF n rec env g w]
    from rest Go y obtain fl where l: "loop F V = Ret fl"
      and fin: "(case fl of Leave r \<Rightarrow> Ret r | Break V' \<Rightarrow> negamax_finish E F V'
                 | Next V' \<Rightarrow> negamax_finish E F V') = Ret res"
      by (auto simp: obind_Ret)
    from i have sk: "nf_skipMove F = sd_skipMove (st_data st) (sd_ply (st_data st))"
      by (simp add: loop_inv_def)
    from loop [OF _ _ l] i have lp: "loop_post E st F fl" by simp
    show ?thesis
    proof (cases fl)
      case (Leave r)
      with fin lp show ?thesis by (simp add: loop_post_def)
    next
      case (Break V')
      with fin have f: "negamax_finish E F V' = Ret res" by simp
      from lp Break show ?thesis
        by (intro negamax_finish_ok [OF f env _ _ sk]) (simp_all add: loop_post_def)
    next
      case (Next V')
      with fin have f: "negamax_finish E F V' = Ret res" by simp
      from lp Next show ?thesis
        by (intro negamax_finish_ok [OF f env _ _ sk]) (simp_all add: loop_post_def)
    qed
  qed
qed

lemma quiesce_body_ok:
  assumes run: "quiesce_body loop E alpha beta st = Ret (r, pv, st')"
    and loop: "\<And>F V fl. q_inv E st V \<Longrightarrow> loop F V = Ret fl \<Longrightarrow> q_post E st fl"
    and env: "good_env E" and g: "good_state E st"
  shows "good_state E st' \<and> kept st st' \<and> in_range (sd_ply (st_data st)) r"
proof (cases "quiesce_node E alpha beta st")
  case (Return x)
  with run have "quiesce_node E alpha beta st = Return (r, pv, st')"
    by (simp add: quiesce_body_def)
  from quiesce_node_Return [OF this env g] show ?thesis .
next
  case (Go y)
  obtain F V where y: "y = (F, V)" by (cases y)
  from Go y have n: "quiesce_node E alpha beta st = Go (F, V)" by simp
  note i = quiesce_node_Go [OF n env g]
  from run n obtain fl where l: "loop F V = Ret fl"
    and fin: "(case fl of Leave r \<Rightarrow> Ret r
               | Break V' \<Rightarrow> Ret (qv_bestScore V', qv_pv V', qv_st V')
               | Next V' \<Rightarrow> Ret (qv_bestScore V', qv_pv V', qv_st V')) = Ret (r, pv, st')"
    by (auto simp: quiesce_body_def obind_Ret)
  from loop [OF i l] fin show ?thesis
    by (cases fl) (auto simp: q_post_def q_inv_def)
qed

lemma negamax_loop_step:
  assumes run: "negamax_loop (Suc n) E F V = Ret fl"
    and rec: "search_ok E (\<lambda>a b d s. negamax n E a b d s)"
    and loop: "\<And>V fl. loop_inv E st0 F V \<Longrightarrow> best_ok st0 F V \<Longrightarrow> negamax_loop n E F V = Ret fl
                 \<Longrightarrow> loop_post E st0 F fl"
    and env: "good_env E" and inv: "loop_inv E st0 F V" and bo: "best_ok st0 F V"
  shows "loop_post E st0 F fl"
proof (cases "nv_i V < ml_count (nv_moveList V)")
  case False
  with run have fl: "fl = Next V" by simp
  from False bo have "ml_count (nv_moveList V) = 0 \<or> best_done st0 F V"
    by (auto simp: best_ok_def best_done_def)
  with inv fl show ?thesis by (simp add: loop_post_def loop_inv_def)
next
  case True
  with run obtain fl1 where it: "negamax_iter (\<lambda>a b d s. negamax n E a b d s) E F V = Ret fl1"
    and rest: "(case fl1 of Leave r \<Rightarrow> Ret (Leave r) | Break V' \<Rightarrow> Ret (Break V')
                | Next V' \<Rightarrow> negamax_loop n E F (V'\<lparr>nv_i := Suc (nv_i V')\<rparr>)) = Ret fl"
    by (auto simp: obind_Ret)
  note p = negamax_iter_ok [OF it rec env inv bo True]
  show ?thesis
  proof (cases fl1)
    case (Leave r)
    with rest p show ?thesis by (auto simp: iter_post_def loop_post_def)
  next
    case (Break V')
    with rest p show ?thesis by (auto simp: iter_post_def loop_post_def)
  next
    case (Next V')
    with rest have l: "negamax_loop n E F (V'\<lparr>nv_i := Suc (nv_i V')\<rparr>) = Ret fl" by simp
    from p Next have "loop_inv E st0 F (V'\<lparr>nv_i := Suc (nv_i V')\<rparr>)"
      "best_ok st0 F (V'\<lparr>nv_i := Suc (nv_i V')\<rparr>)"
      by (auto simp: iter_post_def loop_inv_def best_ok_def best_done_def)
    from loop [OF this l] show ?thesis .
  qed
qed

lemma quiesce_loop_step:
  assumes run: "quiesce_loop (Suc n) E F V = Ret fl"
    and rec: "qsearch_ok E (\<lambda>a b s. quiesce n E a b s)"
    and loop: "\<And>V fl. q_inv E st0 V \<Longrightarrow> quiesce_loop n E F V = Ret fl \<Longrightarrow> q_post E st0 fl"
    and inv: "q_inv E st0 V"
  shows "q_post E st0 fl"
proof (cases "qv_i V < ml_count (qv_moveList V)")
  case False
  with run inv show ?thesis by (auto simp: q_post_def)
next
  case True
  with run obtain fl1 where it: "quiesce_iter (\<lambda>a b s. quiesce n E a b s) E F V = Ret fl1"
    and rest: "(case fl1 of Leave r \<Rightarrow> Ret (Leave r) | Break V' \<Rightarrow> Ret (Break V')
                | Next V' \<Rightarrow> quiesce_loop n E F (V'\<lparr>qv_i := Suc (qv_i V')\<rparr>)) = Ret fl"
    by (auto simp: obind_Ret)
  note p = quiesce_iter_ok [OF it rec inv]
  show ?thesis
  proof (cases fl1)
    case (Leave r)
    with rest p show ?thesis by (auto simp: q_post_def)
  next
    case (Break V')
    with rest p show ?thesis by (auto simp: q_post_def)
  next
    case (Next V')
    with rest have l: "quiesce_loop n E F (V'\<lparr>qv_i := Suc (qv_i V')\<rparr>) = Ret fl" by simp
    from p Next have "q_inv E st0 (V'\<lparr>qv_i := Suc (qv_i V')\<rparr>)"
      by (auto simp: q_post_def q_inv_def)
    from loop [OF this l] show ?thesis .
  qed
qed

lemma search_sound:
  assumes env: "good_env E"
  shows "search_ok E (\<lambda>a b d s. negamax n E a b d s)
       \<and> qsearch_ok E (\<lambda>a b s. quiesce n E a b s)
       \<and> (\<forall>st0 F V fl. loop_inv E st0 F V \<and> best_ok st0 F V \<and> negamax_loop n E F V = Ret fl
            \<longrightarrow> loop_post E st0 F fl)
       \<and> (\<forall>st0 F V fl. q_inv E st0 V \<and> quiesce_loop n E F V = Ret fl \<longrightarrow> q_post E st0 fl)"
proof (induction n)
  case 0
  show ?case by (simp add: search_ok_def qsearch_ok_def)
next
  case (Suc n)
  then have rec: "search_ok E (\<lambda>a b d s. negamax n E a b d s)"
    and recq: "qsearch_ok E (\<lambda>a b s. quiesce n E a b s)"
    and loop: "\<And>st0 F V fl. loop_inv E st0 F V \<Longrightarrow> best_ok st0 F V
                 \<Longrightarrow> negamax_loop n E F V = Ret fl \<Longrightarrow> loop_post E st0 F fl"
    and qloop: "\<And>st0 F V fl. q_inv E st0 V \<Longrightarrow> quiesce_loop n E F V = Ret fl
                 \<Longrightarrow> q_post E st0 fl"
    by blast+
  have a: "search_ok E (\<lambda>a b d s. negamax (Suc n) E a b d s)"
  proof (rule search_okI)
    fix a b d st res
    assume g: "good_state E st" and w: "window_ok (sd_ply (st_data st)) a b"
      and run: "negamax (Suc n) E a b d st = Ret res"
    from run have "negamax_body (\<lambda>a b d s. negamax n E a b d s) (\<lambda>a b s. quiesce n E a b s)
       (\<lambda>F V. negamax_loop n E F V) E a b d st = Ret res" by simp
    from negamax_body_ok [OF this rec recq loop env g w] show "frame_post E st res" .
  qed
  have b: "qsearch_ok E (\<lambda>a b s. quiesce (Suc n) E a b s)"
    unfolding qsearch_ok_def
  proof (intro allI impI, elim conjE)
    fix a b st r pv st'
    assume g: "good_state E st" and run: "quiesce (Suc n) E a b st = Ret (r, pv, st')"
    from run have "quiesce_body (\<lambda>F V. quiesce_loop n E F V) E a b st = Ret (r, pv, st')" by simp
    from quiesce_body_ok [OF this qloop env g]
    show "good_state E st' \<and> kept st st' \<and> in_range (sd_ply (st_data st)) r" .
  qed
  have c: "loop_post E st0 F fl"
    if "loop_inv E st0 F V" "best_ok st0 F V" "negamax_loop (Suc n) E F V = Ret fl"
    for st0 F V fl
    by (rule negamax_loop_step [OF that(3) rec _ env that(1,2)]) (rule loop)
  have d: "q_post E st0 fl" if "q_inv E st0 V" "quiesce_loop (Suc n) E F V = Ret fl"
    for st0 F V fl
    by (rule quiesce_loop_step [OF that(2) recq _ that(1)]) (rule qloop)
  from a b c d show ?case by blast
qed

lemma negamax_entry_high:
  assumes env: "good_env E" and g: "good_state E st"
    and p: "sd_ply (st_data st) \<noteq> 0" and a: "CHECKMATE - sd_ply (st_data st) < alpha"
  shows "case negamax_entry E alpha beta st of
           Return (r, pv, st') \<Rightarrow> - CHECKMATE + sd_ply (st_data st) \<le> r
         | Go x \<Rightarrow> False"
proof -
  have pr: "0 \<le> sd_ply (st_data st)" "sd_ply (st_data st) \<le> CHECKMATE - MATE_BOUND"
    using env g by (auto simp: good_state_def good_env_def)
  have e: "\<bar>Evaluate E b\<bar> \<le> MATE_BOUND" for b using env by (simp add: good_env_def)
  from pr e [of "sd_board (st_data st)"] p a show ?thesis
    by (auto simp: negamax_entry_def Let_def CHECKMATE_def MATE_BOUND_def)
qed

lemma negamax_high:
  assumes run: "negamax n E alpha beta depth st = Ret (r, pv, st')"
    and env: "good_env E" and g: "good_state E st"
    and p: "sd_ply (st_data st) \<noteq> 0" and a: "CHECKMATE - sd_ply (st_data st) < alpha"
  shows "- CHECKMATE + sd_ply (st_data st) \<le> r"
proof (cases n)
  case 0
  with run show ?thesis by simp
next
  case (Suc m)
  note h = negamax_entry_high [OF env g p a, of beta]
  show ?thesis
  proof (cases "depth = 0")
    case True
    with run Suc have "quiesce m E alpha beta st = Ret (r, pv, st')"
      by (simp add: negamax_body_def)
    with search_sound [OF env, of m] g have "in_range (sd_ply (st_data st)) r"
      unfolding qsearch_ok_def by blast
    then show ?thesis by (simp add: in_range_def)
  next
    case False
    with run Suc obtain x where
      node: "negamax_node (\<lambda>a b d s. negamax m E a b d s) E alpha beta depth st = Ret x"
      and rest: "(case x of Return r \<Rightarrow> Ret r
                  | Go (F, V) \<Rightarrow> obind (negamax_loop m E F V) (\<lambda>fl. case fl of Leave r \<Rightarrow> Ret r
                      | Break V' \<Rightarrow> negamax_finish E F V'
                      | Next V' \<Rightarrow> negamax_finish E F V')) = Ret (r, pv, st')"
      by (auto simp: negamax_body_def obind_Ret)
    from node show ?thesis
    proof (cases rule: negamax_node_cases)
      case (entry res)
      with rest h show ?thesis by auto
    next
      case (cutoff alpha1 beta1 st2 score)
      with h show ?thesis by simp
    next
      case (prune alpha1 beta1 st2 eval improving st3 res)
      with h show ?thesis by simp
    next
      case (go F V)
      with node have "negamax_node (\<lambda>a b d s. negamax m E a b d s) E alpha beta depth st
          = Ret (Go (F, V))" by simp
      then show ?thesis using h by (cases rule: negamax_node_Go) simp
    qed
  qed
qed

text \<open>C3. Lower bounds on the scores. A frame of \<^verbatim>\<open>quiesce\<close> that reaches its stand-pat
  evaluation (it is not drawn, is below the ply limit and takes no cutoff from the table) returns
  at least that evaluation, or it returns 0 with the stop flag set. A frame of \<^verbatim>\<open>negamax\<close> that
  is not a singular search (\<^verbatim>\<open>skipMove[ply]\<close> is unset) returns at least \<^verbatim>\<open>-CHECKMATE + ply\<close>,
  when the static evaluation is no mate score, \<^verbatim>\<open>MAX_DEPTH\<close> is between 1 and
  \<^verbatim>\<open>CHECKMATE - MATE_BOUND\<close>, no generated move is \<^verbatim>\<open>NULL_MOVE\<close>, the ply is between 0 and
  \<^verbatim>\<open>MAX_DEPTH\<close>, the entries of the table have stored scores of at least \<^verbatim>\<open>-CHECKMATE\<close> and
  evaluations that are no mate scores, so have the recorded evaluations, and the window of a root
  frame lies within the mate scores.\<close>

theorem score_lower_bounds:
  "(stand_pat_eval E alpha beta st = Some e \<and> quiesce n E alpha beta st = Ret (r, pv, st')
      \<longrightarrow> e \<le> r \<or> (r = 0 \<and> stopped st'))
   \<and> (good_env E \<and> good_state E st \<and> root_window (sd_ply (st_data st)) alpha beta
        \<and> sd_skipMove (st_data st) (sd_ply (st_data st)) = NULL_MOVE
        \<and> negamax n E alpha beta depth st = Ret (r, pv, st')
      \<longrightarrow> - CHECKMATE + sd_ply (st_data st) \<le> r)"
proof (intro conjI impI, goal_cases)
  case 1
  then show ?case using quiesce_above_stand_pat by blast
next
  case 2
  then have env: "good_env E" and g: "good_state E st"
    and w: "root_window (sd_ply (st_data st)) alpha beta"
    and sk: "sd_skipMove (st_data st) (sd_ply (st_data st)) = 0"
    and run: "negamax n E alpha beta depth st = Ret (r, pv, st')"
    by (simp_all add: NULL_MOVE_def)
  show ?case
  proof (cases "window_ok (sd_ply (st_data st)) alpha beta")
    case True
    from search_sound [OF env, of n] g True run sk have "in_range (sd_ply (st_data st)) r"
      unfolding search_ok_def by blast
    then show ?thesis by (simp add: in_range_def)
  next
    case False
    with w have "sd_ply (st_data st) \<noteq> 0" "CHECKMATE - sd_ply (st_data st) < alpha"
      by (auto simp: window_ok_def root_window_def split: if_splits)
    from negamax_high [OF run env g this] show ?thesis .
  qed
qed

text \<open>The root of the small game: quiescence returns its stand-pat evaluation 50, and the search
  of depth 1 returns a score above \<^verbatim>\<open>-CHECKMATE\<close>.\<close>

theorem score_lower_bounds_witness:
  "stand_pat_eval sample_env (- 100) 100 (sample_at 0 0) = Some 50
   \<and> (\<exists>r pv st'. quiesce 3 sample_env (- 100) 100 (sample_at 0 0) = Ret (r, pv, st')
         \<and> (50 \<le> r \<or> (r = 0 \<and> stopped st')))
   \<and> good_env sample_env \<and> good_state sample_env (sample_at 0 0)
   \<and> root_window (sd_ply (st_data (sample_at 0 0))) (- 100) 100
   \<and> sd_skipMove (st_data (sample_at 0 0)) (sd_ply (st_data (sample_at 0 0))) = NULL_MOVE
   \<and> (\<exists>r pv st'. negamax 5 sample_env (- 100) 100 1 (sample_at 0 0) = Ret (r, pv, st')
         \<and> - CHECKMATE + sd_ply (st_data (sample_at 0 0)) \<le> r)"
proof -
  have e: "stand_pat_eval sample_env (- 100) 100 (sample_at 0 0) = Some 50"
    by (simp add: stand_pat_eval_def quiesce_eval sample_defs)
  have "\<exists>r pv st'. quiesce 3 sample_env (- 100) 100 (sample_at 0 0) = Ret (r, pv, st')"
    by (simp add: quiesce_eval quiesce_update_def sample_defs numeral_3_eq_3)
  then obtain r1 pv1 st1 where q: "quiesce 3 sample_env (- 100) 100 (sample_at 0 0)
      = Ret (r1, pv1, st1)"
    by blast
  note T1 = score_lower_bounds [where E = sample_env and alpha = "- 100" and beta = 100
      and st = "sample_at 0 0" and e = 50 and n = 3 and r = r1 and pv = pv1 and st' = st1,
      THEN conjunct1]
  from T1 e q have a: "50 \<le> r1 \<or> (r1 = 0 \<and> stopped st1)"
    by blast
  have env: "good_env sample_env"
    by (simp add: good_env_def moves_nonnull_def list_nonnull_def sample_defs NULL_MOVE_def
        CHECKMATE_def MATE_BOUND_def)
  have g: "good_state sample_env (sample_at 0 0)"
    by (simp add: good_state_def good_table_def tt_sized_def sample_defs sizeof_TTValue_def
        BUCKET_SIZE_def MATE_BOUND_def)
  have w: "root_window (sd_ply (st_data (sample_at 0 0))) (- 100) 100"
    by (simp add: root_window_def CHECKMATE_def)
  have sk: "sd_skipMove (st_data (sample_at 0 0)) (sd_ply (st_data (sample_at 0 0))) = NULL_MOVE"
    by (simp add: sample_defs NULL_MOVE_def)
  have "\<exists>r pv st'. negamax 5 sample_env (- 100) 100 1 (sample_at 0 0) = Ret (r, pv, st')"
    by (simp add: five negamax_run quiesce_eval quiesce_update_def sample_defs CHECKMATE_def
        finish_eval sample_macros_def flag_code_def SEE_def SEE_PRUNE_CAPTURE_CUTOFF_def
        SEE_PRUNE_CUTOFF_def LMP_def)
  then obtain r2 pv2 st2 where n: "negamax 5 sample_env (- 100) 100 1 (sample_at 0 0)
      = Ret (r2, pv2, st2)"
    by blast
  note T2 = score_lower_bounds [where E = sample_env and alpha = "- 100" and beta = 100
      and st = "sample_at 0 0" and n = 5 and depth = 1 and r = r2 and pv = pv2 and st' = st2,
      THEN conjunct2]
  from T2 env g w sk n have b: "- CHECKMATE + sd_ply (st_data (sample_at 0 0)) \<le> r2"
    by blast
  from e q a env g w sk n b show ?thesis
    by blast
qed

text \<open>Neither bound holds for every frame. The quiescence frame at node 2047 of the small game
  has the stand-pat evaluation 50; the stop comes while its capture is searched, and it
  returns 0. The frame of a singular search at ply 1 whose only move is the move to skip
  returns \<^verbatim>\<open>-CHECKMATE\<close>, one less than \<^verbatim>\<open>-CHECKMATE + ply\<close>.\<close>

theorem score_lower_bounds_counterexample:
  "stand_pat_eval sample_env (- 100) 100 (sample_at 2046 1) = Some 50
   \<and> score_of (quiesce 3 sample_env (- 100) 100 (sample_at 2046 1)) = Some 0
   \<and> score_of (negamax 3 sample_env 9 10 3 skip_frame) = Some (- 32767)
   \<and> - CHECKMATE + sd_ply (st_data skip_frame) = - 32766"
proof -
  have a: "stand_pat_eval sample_env (- 100) 100 (sample_at 2046 1) = Some 50"
    by (simp add: stand_pat_eval_def quiesce_eval sample_defs)
  have b: "score_of (quiesce 3 sample_env (- 100) 100 (sample_at 2046 1)) = Some 0"
    by (simp add: quiesce_eval quiesce_update_def sample_defs numeral_3_eq_3)
  have c: "score_of (negamax 3 sample_env 9 10 3 skip_frame) = Some (- 32767)"
    by (simp add: skip_frame_def negamax_run quiesce_eval sample_defs CHECKMATE_def
        MATE_BOUND_def numeral_3_eq_3)
  have d: "- CHECKMATE + sd_ply (st_data skip_frame) = - 32766"
    by (simp add: skip_frame_def CHECKMATE_def)
  from a b c d show ?thesis by simp
qed

end
